theory Spec2Isabelle
  imports Main "HOL-Library.Word" "HOL-Library.Multiset"
begin

unbundle bit_operations_syntax

section \<open>Values, errors and the external collaborators\<close>

text \<open>
  A JavaScript exception is a value of type \<open>error\<close>: \<open>TypeError\<close> is what the
  runtime raises for a property access on \<open>undefined\<close> or a method call on a value that
  has no such method; \<open>Thrown\<close> is any exception raised by a collaborator (a memory read)
  or by a user callback.
\<close>

datatype error = TypeError | Thrown string

text \<open>
  The JavaScript values that flow through the tracer. \<open>JPtr\<close> is a NativePointer, the
  raw argument or return word; the pointer type \<open>'p\<close> is instantiated below with
  \<open>'w word\<close>, a machine word whose width \<open>'w\<close> is that of the traced process.
  Numbers are the integers the decoders produce. \<open>JObjectPrototype\<close> is the object
  \<open>Object.prototype\<close> and \<open>JBuiltin n\<close> the function it holds under the name \<open>n\<close>:
  both can be read out of a plain object.
\<close>

datatype 'p jsval =
    Undefined
  | Null
  | JBool bool
  | JNum int
  | JPtr 'p
  | JBytes "8 word list"
  | JStr string
  | JObjectPrototype
  | JBuiltin string

fun truthy :: "'p jsval \<Rightarrow> bool" where
  "truthy Undefined = False"
| "truthy Null = False"
| "truthy (JBool b) = b"
| "truthy (JNum n) = (n \<noteq> 0)"
| "truthy (JPtr p) = True"
| "truthy (JBytes bs) = True"
| "truthy (JStr s) = (s \<noteq> [])"
| "truthy JObjectPrototype = True"
| "truthy (JBuiltin n) = True"

text \<open>
  The requests the code sends to the \<open>Memory\<close> collaborator. The collaborator itself is
  a parameter \<open>mem\<close> answering each request with a value or an exception; every function
  below returns, beside its result, the list of requests it made, in order.
\<close>

datatype 'p memcall =
    ReadU8 'p
  | ReadShort 'p
  | ReadInt 'p
  | ReadPointer 'p
  | ReadByteArray 'p "'p jsval"
  | ReadUtf8String 'p "'p jsval"
  | ReadUtf16String 'p "'p jsval"

type_synonym 'p memory = "'p memcall \<Rightarrow> error + 'p jsval"

definition call :: "'p memory \<Rightarrow> 'p memcall \<Rightarrow> (error + 'p jsval) \<times> 'p memcall list" where
  "call mem c = (mem c, [c])"

definition toInt32 :: "('w::len) word jsval \<Rightarrow> error + int" where
  "toInt32 rawValue = (case rawValue of JPtr p \<Rightarrow> Inr (sint (ucast p :: 32 word)) | _ \<Rightarrow> Inl TypeError)"

section \<open>Plain objects\<close>

text \<open>
  The code keeps the decoded arguments and the type parameters in objects made by the
  literal \<open>{}\<close>, read by \<open>obj[key]\<close> and written by \<open>obj[key] = value\<close> in strict mode.
  Such an object has its own properties, all writable data properties made by assignment,
  and a prototype: \<open>Object.prototype\<close> at first, and \<open>null\<close> or another object once an
  assignment to \<open>__proto__\<close> has replaced it.
\<close>

datatype 'p prototype = ObjectPrototype | NullPrototype | HostPrototype "'p jsval"

record 'p object =
  obj_own :: "string \<rightharpoonup> 'p jsval"
  obj_proto :: "'p prototype"

definition empty_object :: "'p object" where
  "empty_object = \<lparr>obj_own = Map.empty, obj_proto = ObjectPrototype\<rparr>"

text \<open>
  What a prototype chain supplies for a key: nothing, a data property (its value, and
  whether it is writable), or an accessor property (what its getter returns or raises,
  and the exception its setter raises, if any, when called on the object; a missing
  setter raises a TypeError in strict mode). A setter is taken not to define properties
  on the object.
\<close>

datatype 'p inherited =
    Absent
  | DataProperty "'p jsval" bool
  | AccessorProperty "error + 'p jsval" "error option"

text \<open>
  \<open>Object.prototype\<close> holds these functions, as writable data properties, and the
  accessor \<open>__proto__\<close>, which is treated apart because its setter changes the object.
\<close>

definition object_prototype_members :: "string list" where
  "object_prototype_members =
     [''constructor'', ''hasOwnProperty'', ''isPrototypeOf'', ''propertyIsEnumerable'',
      ''toLocaleString'', ''toString'', ''valueOf'', ''__defineGetter__'',
      ''__defineSetter__'', ''__lookupGetter__'', ''__lookupSetter__'']"

text \<open>
  The properties of the objects of the host, a NativePointer, an ArrayBuffer or a function,
  are not in the source: \<open>host h key\<close> is what the prototype chain of an object whose
  prototype is the host object \<open>h\<close> supplies for a key other than \<open>__proto__\<close>. That
  chain ends in \<open>Object.prototype\<close>, so \<open>__proto__\<close> is the same accessor there.
\<close>

type_synonym 'p host = "'p jsval \<Rightarrow> string \<Rightarrow> 'p inherited"

definition lookup :: "'p host \<Rightarrow> 'p prototype \<Rightarrow> string \<Rightarrow> 'p inherited" where
  "lookup host proto key =
     (case proto of
        NullPrototype \<Rightarrow> Absent
      | ObjectPrototype \<Rightarrow>
          if key \<in> set object_prototype_members then DataProperty (JBuiltin key) True
          else Absent
      | HostPrototype h \<Rightarrow> host h key)"

definition prototype_value :: "'p prototype \<Rightarrow> 'p jsval" where
  "prototype_value proto =
     (case proto of
        NullPrototype \<Rightarrow> Null
      | ObjectPrototype \<Rightarrow> JObjectPrototype
      | HostPrototype h \<Rightarrow> h)"

text \<open>
  The setter of \<open>__proto__\<close>: an object or \<open>null\<close> becomes the prototype, any other
  value is ignored.
\<close>

fun set_prototype :: "'p object \<Rightarrow> 'p jsval \<Rightarrow> 'p object" where
  "set_prototype obj Null = obj\<lparr>obj_proto := NullPrototype\<rparr>"
| "set_prototype obj JObjectPrototype = obj\<lparr>obj_proto := ObjectPrototype\<rparr>"
| "set_prototype obj (JPtr p) = obj\<lparr>obj_proto := HostPrototype (JPtr p)\<rparr>"
| "set_prototype obj (JBytes bs) = obj\<lparr>obj_proto := HostPrototype (JBytes bs)\<rparr>"
| "set_prototype obj (JBuiltin n) = obj\<lparr>obj_proto := HostPrototype (JBuiltin n)\<rparr>"
| "set_prototype obj Undefined = obj"
| "set_prototype obj (JBool b) = obj"
| "set_prototype obj (JNum n) = obj"
| "set_prototype obj (JStr s) = obj"

text \<open>\<open>obj[key]\<close>: the own property, or else what the prototype chain supplies.\<close>

definition obj_get :: "'p host \<Rightarrow> 'p object \<Rightarrow> string \<Rightarrow> error + 'p jsval" where
  "obj_get host obj key =
     (case obj_own obj key of
        Some v \<Rightarrow> Inr v
      | None \<Rightarrow>
          if key = ''__proto__'' \<and> obj_proto obj \<noteq> NullPrototype
          then Inr (prototype_value (obj_proto obj))
          else (case lookup host (obj_proto obj) key of
                  Absent \<Rightarrow> Inr Undefined
                | DataProperty v writable \<Rightarrow> Inr v
                | AccessorProperty getter setter \<Rightarrow> getter))"

text \<open>
  \<open>obj[key] = value\<close>: an own property is overwritten; otherwise an inherited accessor
  is called, an inherited read-only property raises a TypeError, and in every other case
  the object gets a new own property.
\<close>

definition obj_set :: "'p host \<Rightarrow> 'p object \<Rightarrow> string \<Rightarrow> 'p jsval \<Rightarrow> error + 'p object" where
  "obj_set host obj key v =
     (if key \<in> dom (obj_own obj) then Inr (obj\<lparr>obj_own := (obj_own obj)(key \<mapsto> v)\<rparr>)
      else if key = ''__proto__'' \<and> obj_proto obj \<noteq> NullPrototype
      then Inr (set_prototype obj v)
      else (case lookup host (obj_proto obj) key of
              Absent \<Rightarrow> Inr (obj\<lparr>obj_own := (obj_own obj)(key \<mapsto> v)\<rparr>)
            | DataProperty old writable \<Rightarrow>
                if writable then Inr (obj\<lparr>obj_own := (obj_own obj)(key \<mapsto> v)\<rparr>)
                else Inl TypeError
            | AccessorProperty getter setter \<Rightarrow>
                (case setter of None \<Rightarrow> Inr obj | Some e \<Rightarrow> Inl e)))"

section \<open>Value types\<close>

text \<open>
  A value type is an object with a \<open>parse\<close> and a \<open>read\<close> method. \<open>pointer(pointee)\<close>
  holds an optional pointee, of which only \<open>read\<close> is used: either a value type or one of
  the three anonymous readers of \<open>byteArray\<close>, \<open>utf8\<close> and \<open>utf16\<close>.
\<close>

datatype vtype = TBool | TByte | TShort | TInt | TPointer "reader option"
and reader = TypeReader vtype | ByteArrayReader | Utf8Reader | Utf16Reader

definition pointer :: "reader option \<Rightarrow> vtype" where
  "pointer pointee = TPointer pointee"

definition byteArray :: vtype where
  "byteArray = pointer (Some ByteArrayReader)"

definition utf8 :: vtype where
  "utf8 = pointer (Some Utf8Reader)"

definition utf16 :: vtype where
  "utf16 = pointer (Some Utf16Reader)"

definition POINTER :: vtype where
  "POINTER = pointer None"

definition BYTE_ARRAY :: vtype where
  "BYTE_ARRAY = byteArray"

definition UTF8 :: vtype where
  "UTF8 = utf8"

definition UTF16 :: vtype where
  "UTF16 = utf16"

text \<open>
  The type parameters are \<open>undefined\<close> (\<open>None\<close>) or the object that a dependent read
  built; \<open>parameters.length\<close> is a read of that object.
\<close>

definition parameters_length :: "'p host \<Rightarrow> 'p memory \<Rightarrow> ('p jsval \<Rightarrow> 'p memcall)
    \<Rightarrow> 'p object \<Rightarrow> (error + 'p jsval) \<times> 'p memcall list" where
  "parameters_length host mem request ps =
     (case obj_get host ps ''length'' of
        Inl e \<Rightarrow> (Inl e, [])
      | Inr len \<Rightarrow> call mem (request len))"

fun read :: "'p host \<Rightarrow> 'p memory \<Rightarrow> reader \<Rightarrow> 'p \<Rightarrow> 'p object option
    \<Rightarrow> (error + 'p jsval) \<times> 'p memcall list" where
  "read host mem (TypeReader TBool) ptr parameters =
     (case mem (ReadU8 ptr) of
        Inl e \<Rightarrow> (Inl e, [ReadU8 ptr])
      | Inr v \<Rightarrow> (Inr (JBool (truthy v)), [ReadU8 ptr]))"
| "read host mem (TypeReader TByte) ptr parameters = call mem (ReadU8 ptr)"
| "read host mem (TypeReader TShort) ptr parameters = call mem (ReadShort ptr)"
| "read host mem (TypeReader TInt) ptr parameters = call mem (ReadInt ptr)"
| "read host mem (TypeReader (TPointer pointee)) ptr parameters = call mem (ReadPointer ptr)"
| "read host mem ByteArrayReader ptr parameters =
     (case parameters of
        None \<Rightarrow> (Inl TypeError, [])
      | Some ps \<Rightarrow> parameters_length host mem (ReadByteArray ptr) ps)"
| "read host mem Utf8Reader ptr parameters =
     (case parameters of
        None \<Rightarrow> call mem (ReadUtf8String ptr (JNum (- 1)))
      | Some ps \<Rightarrow> parameters_length host mem (ReadUtf8String ptr) ps)"
| "read host mem Utf16Reader ptr parameters =
     (case parameters of
        None \<Rightarrow> call mem (ReadUtf16String ptr (JNum (- 1)))
      | Some ps \<Rightarrow> parameters_length host mem (ReadUtf16String ptr) ps)"

fun parse :: "('w::len) word host \<Rightarrow> 'w word memory \<Rightarrow> vtype \<Rightarrow> 'w word jsval
    \<Rightarrow> 'w word object option \<Rightarrow> (error + 'w word jsval) \<times> 'w word memcall list" where
  "parse host mem TBool rawValue parameters =
     (case toInt32 rawValue of Inl e \<Rightarrow> (Inl e, []) | Inr n \<Rightarrow> (Inr (JBool (n \<noteq> 0)), []))"
| "parse host mem TByte rawValue parameters =
     (case toInt32 rawValue of Inl e \<Rightarrow> (Inl e, []) | Inr n \<Rightarrow> (Inr (JNum (n AND 255)), []))"
| "parse host mem TShort rawValue parameters =
     (case toInt32 rawValue of Inl e \<Rightarrow> (Inl e, []) | Inr n \<Rightarrow> (Inr (JNum (n AND 65535)), []))"
| "parse host mem TInt rawValue parameters =
     (case toInt32 rawValue of Inl e \<Rightarrow> (Inl e, []) | Inr n \<Rightarrow> (Inr (JNum n), []))"
| "parse host mem (TPointer None) rawValue parameters = (Inr rawValue, [])"
| "parse host mem (TPointer (Some pointee)) rawValue parameters =
     (case rawValue of
        JPtr p \<Rightarrow> if p = 0 then (Inr Null, []) else read host mem pointee p parameters
      | _ \<Rightarrow> (Inl TypeError, []))"

section \<open>Events\<close>

text \<open>
  \<open>class Event\<close>: the name, the plain object \<open>args\<close>, and the \<open>result\<close> property,
  which does not exist (\<open>None\<close>) until \<open>set\<close> creates it and reads as \<open>undefined\<close>
  before. The fields of an event are the own properties of \<open>args\<close> and \<open>result\<close> once
  it exists.
\<close>

record 'p event =
  ev_name :: string
  ev_args :: "'p object"
  ev_result :: "'p jsval option"

definition Event :: "string \<Rightarrow> 'p event" where
  "Event name = \<lparr>ev_name = name, ev_args = empty_object, ev_result = None\<rparr>"

definition event_get :: "'p host \<Rightarrow> 'p event \<Rightarrow> string \<Rightarrow> error + 'p jsval" where
  "event_get host ev key =
     (if key = ''result'' then Inr (case ev_result ev of None \<Rightarrow> Undefined | Some v \<Rightarrow> v)
      else obj_get host (ev_args ev) key)"

definition event_set :: "'p host \<Rightarrow> 'p event \<Rightarrow> string \<Rightarrow> 'p jsval \<Rightarrow> error + 'p event" where
  "event_set host ev key v =
     (if key = ''result'' then Inr (ev\<lparr>ev_result := Some v\<rparr>)
      else (case obj_set host (ev_args ev) key v of
              Inl e \<Rightarrow> Inl e
            | Inr args \<Rightarrow> Inr (ev\<lparr>ev_args := args\<rparr>)))"


section \<open>Argument descriptors\<close>

datatype direction = IN | OUT | IN_OUT

record binding =
  bind_property :: string
  bind_value :: string

record 'p condition =
  cond_value :: string
  cond_predicate :: "'p jsval \<Rightarrow> error + 'p jsval"

text \<open>
  The \<open>type\<close> of a descriptor is a value type, or the two-element array of a value type
  and a binding (a dependent type).
\<close>

datatype argtype = Plain vtype | Dependent vtype binding

record 'p argument =
  arg_direction :: direction
  arg_name :: string
  arg_type :: argtype
  arg_condition :: "'p condition option"
  arg_requires :: "string list"

record 'p func_spec =
  func_name :: string
  func_ret :: "'p argument option"
  func_args :: "'p argument list"

definition bind :: "string \<Rightarrow> string \<Rightarrow> binding" where
  "bind property v = \<lparr>bind_property = property, bind_value = v\<rparr>"

definition when_cond :: "string \<Rightarrow> ('p jsval \<Rightarrow> error + 'p jsval) \<Rightarrow> 'p condition" where
  "when_cond v predicate = \<lparr>cond_value = v, cond_predicate = predicate\<rparr>"

definition dependencies :: "direction \<Rightarrow> argtype \<Rightarrow> 'p condition option \<Rightarrow> string list" where
  "dependencies direction type condition =
     (if direction = OUT then [''$out''] else [])
     @ (case type of Plain t \<Rightarrow> [] | Dependent t b \<Rightarrow> [bind_value b])
     @ (case condition of None \<Rightarrow> [] | Some c \<Rightarrow> [cond_value c])"

definition arg :: "direction \<Rightarrow> string \<Rightarrow> argtype \<Rightarrow> 'p condition option \<Rightarrow> 'p argument" where
  "arg direction name type condition =
     \<lparr>arg_direction = direction, arg_name = name, arg_type = type, arg_condition = condition,
      arg_requires = dependencies direction type condition\<rparr>"

definition argIn :: "string \<Rightarrow> argtype \<Rightarrow> 'p condition option \<Rightarrow> 'p argument" where
  "argIn name type condition = arg IN name type condition"

definition argOut :: "string \<Rightarrow> argtype \<Rightarrow> 'p condition option \<Rightarrow> 'p argument" where
  "argOut name type condition = arg OUT name type condition"

definition argInOut :: "string \<Rightarrow> argtype \<Rightarrow> 'p condition option \<Rightarrow> 'p argument" where
  "argInOut name type condition = arg IN_OUT name type condition"

definition retval :: "argtype \<Rightarrow> 'p condition option \<Rightarrow> 'p argument" where
  "retval type condition = argOut ''result'' type condition"

definition func :: "string \<Rightarrow> 'p argument option \<Rightarrow> 'p argument list \<Rightarrow> 'p func_spec" where
  "func name ret as = \<lparr>func_name = name, func_ret = ret, func_args = as\<rparr>"

section \<open>The action compiler\<close>

text \<open>
  \<open>computeAction\<close> returns a pair of one of four functions and its parameter array; the
  pair is a constructor named after the function, and the \<open>parse\<close> closure it holds is
  the value type it was taken from.
\<close>

datatype 'p action =
    ReadValue nat string vtype
  | ReadValueConditionally nat string vtype "'p condition"
  | ReadValueWithDependentType nat string vtype binding
  | ReadValueWithDependentTypeConditionally nat string vtype binding "'p condition"

definition computeAction :: "'p argument \<Rightarrow> nat \<Rightarrow> 'p action" where
  "computeAction a index =
     (case arg_type a of
        Dependent t b \<Rightarrow>
          (case arg_condition a of
             Some c \<Rightarrow> ReadValueWithDependentTypeConditionally index (arg_name a) t b c
           | None \<Rightarrow> ReadValueWithDependentType index (arg_name a) t b)
      | Plain t \<Rightarrow>
          (case arg_condition a of
             Some c \<Rightarrow> ReadValueConditionally index (arg_name a) t c
           | None \<Rightarrow> ReadValue index (arg_name a) t))"

text \<open>
  \<open>satisfied\<close> is a JavaScript \<open>Set\<close>: a list without repetition in insertion order,
  whose \<open>size\<close> is its length.
\<close>

definition set_add :: "string \<Rightarrow> string list \<Rightarrow> string list" where
  "set_add x xs = (if x \<in> set xs then xs else xs @ [x])"

text \<open>The body of the \<open>forEach\<close> callback, on the pair of the satisfied set and the action list.\<close>

fun scan_step :: "string list \<times> 'p action list \<Rightarrow> 'p argument \<times> nat
    \<Rightarrow> string list \<times> 'p action list" where
  "scan_step (satisfied, actions) (a, index) =
     (if arg_name a \<in> set satisfied then (satisfied, actions)
      else if filter (\<lambda>dep. dep \<notin> set satisfied) (arg_requires a) = []
           then (set_add (arg_name a) satisfied, actions @ [computeAction a index])
           else (satisfied, actions))"

definition scan :: "'p argument list \<Rightarrow> string list \<times> 'p action list
    \<Rightarrow> string list \<times> 'p action list" where
  "scan as st = foldl scan_step st (zip as [0..<length as])"

text \<open>
  The \<open>do ... while (satisfied.size !== previousSatisfiedSize)\<close> loop: the body runs once
  before the test.
\<close>

function closure :: "'p argument list \<Rightarrow> string list \<times> 'p action list
    \<Rightarrow> string list \<times> 'p action list" where
  "closure as st =
     (let st' = scan as st
      in if length (fst st') \<noteq> length (fst st) then closure as st' else st')"
  by pat_completeness auto


lemma scan_step_appends:
  "\<exists>new. fst (scan_step st x) = fst st @ new \<and> set new \<subseteq> {arg_name (fst x)} - set (fst st)"
  by (cases st; cases x) (simp add: set_add_def)

lemma foldl_scan_step_appends:
  "\<exists>new. fst (foldl scan_step st xs) = fst st @ new
     \<and> set new \<subseteq> (arg_name \<circ> fst) ` set xs - set (fst st)"
proof (induction xs arbitrary: st)
  case Nil
  show ?case by simp
next
  case (Cons x xs)
  obtain n0 where n0: "fst (scan_step st x) = fst st @ n0"
    "set n0 \<subseteq> {arg_name (fst x)} - set (fst st)"
    using scan_step_appends by blast
  obtain n1 where n1: "fst (foldl scan_step (scan_step st x) xs) = fst (scan_step st x) @ n1"
    "set n1 \<subseteq> (arg_name \<circ> fst) ` set xs - set (fst (scan_step st x))"
    using Cons.IH by blast
  have "fst (foldl scan_step st (x # xs)) = fst st @ (n0 @ n1)"
    using n0 n1 by simp
  moreover have "set (n0 @ n1) \<subseteq> (arg_name \<circ> fst) ` set (x # xs) - set (fst st)"
    using n0 n1 by auto
  ultimately show ?case by blast
qed

lemma scan_appends:
  "\<exists>new. fst (scan as st) = fst st @ new \<and> set new \<subseteq> set (map arg_name as) - set (fst st)"
proof -
  obtain new where new: "fst (foldl scan_step st (zip as [0..<length as])) = fst st @ new"
    "set new \<subseteq> (arg_name \<circ> fst) ` set (zip as [0..<length as]) - set (fst st)"
    using foldl_scan_step_appends by blast
  have "(arg_name \<circ> fst) ` set (zip as [0..<length as]) \<subseteq> set (map arg_name as)"
    by (auto dest: set_zip_leftD)
  with new show ?thesis unfolding scan_def by blast
qed

lemma scan_measure:
  assumes "length (fst (scan as st)) \<noteq> length (fst st)"
  shows "card (set (map arg_name as) - set (fst (scan as st)))
       < card (set (map arg_name as) - set (fst st))"
proof -
  obtain new where new: "fst (scan as st) = fst st @ new"
    "set new \<subseteq> set (map arg_name as) - set (fst st)"
    using scan_appends by blast
  from assms new(1) have "new \<noteq> []" by auto
  then obtain x where x: "x \<in> set new" by (cases new) auto
  with new(2) have "x \<in> set (map arg_name as) - set (fst st)" by blast
  moreover have "x \<notin> set (map arg_name as) - set (fst (scan as st))"
    using x new(1) by simp
  moreover have "set (map arg_name as) - set (fst (scan as st))
      \<subseteq> set (map arg_name as) - set (fst st)"
    using new(1) by auto
  ultimately have "set (map arg_name as) - set (fst (scan as st))
      \<subset> set (map arg_name as) - set (fst st)"
    by blast
  then show ?thesis by (simp add: psubset_card_mono)
qed

termination closure
proof (relation "measure (\<lambda>(as, st). card (set (map arg_name as) - set (fst st)))")
  show "wf (measure (\<lambda>(as, st). card (set (map arg_name as) - set (fst st))))"
    by simp
next
  fix as :: "'a argument list" and st st' :: "string list \<times> 'a action list"
  assume "st' = scan as st" and "length (fst st') \<noteq> length (fst st)"
  then show "((as, st'), (as, st))
      \<in> measure (\<lambda>(as, st). card (set (map arg_name as) - set (fst st)))"
    using scan_measure [of as st] by simp
qed


declare closure.simps [simp del]

text \<open>
  \<open>computeActions\<close> fills the two arrays it is given, both empty at its only call site,
  and returns whether every descriptor was scheduled; the model returns the three together.
\<close>

definition all_args :: "'p func_spec \<Rightarrow> 'p argument list" where
  "all_args f = func_args f @ (case func_ret f of None \<Rightarrow> [] | Some r \<Rightarrow> [r])"

definition computeActions :: "'p func_spec \<Rightarrow> bool \<times> 'p action list \<times> 'p action list" where
  "computeActions f =
     (let as = all_args f;
          (satisfied1, inputActions) = closure as ([], []);
          (satisfied2, outputActions) = closure as (set_add ''$out'' satisfied1, [])
      in (\<not> list_ex (\<lambda>a. arg_name a \<notin> set satisfied2) as, inputActions, outputActions))"


section \<open>Running the actions\<close>

text \<open>
  \<open>values\<close> is the array of raw words captured at entry, the return word appended at
  exit; an index past its end reads \<open>undefined\<close>.
\<close>

definition value_at :: "'p jsval list \<Rightarrow> nat \<Rightarrow> 'p jsval" where
  "value_at values index = (if index < length values then values ! index else Undefined)"

definition store :: "'p host \<Rightarrow> 'p event \<Rightarrow> string \<Rightarrow> (error + 'p jsval) \<times> 'p memcall list
    \<Rightarrow> (error + 'p event) \<times> 'p memcall list" where
  "store host ev name parsed =
     (case parsed of
        (Inl e, reads) \<Rightarrow> (Inl e, reads)
      | (Inr v, reads) \<Rightarrow>
          (case event_set host ev name v of
             Inl e \<Rightarrow> (Inl e, reads)
           | Inr ev' \<Rightarrow> (Inr ev', reads)))"

definition readValue :: "('w::len) word host \<Rightarrow> 'w word memory \<Rightarrow> 'w word jsval list
    \<Rightarrow> 'w word event \<Rightarrow> nat \<Rightarrow> string \<Rightarrow> vtype
    \<Rightarrow> (error + 'w word event) \<times> 'w word memcall list" where
  "readValue host mem values ev index name t =
     store host ev name (parse host mem t (value_at values index) None)"

text \<open>
  \<open>typeParameters\<close> is a fresh plain object with one assignment, of the value the event
  holds for the binding's source name.
\<close>

definition readValueWithDependentType :: "('w::len) word host \<Rightarrow> 'w word memory
    \<Rightarrow> 'w word jsval list \<Rightarrow> 'w word event \<Rightarrow> nat \<Rightarrow> string \<Rightarrow> vtype \<Rightarrow> binding
    \<Rightarrow> (error + 'w word event) \<times> 'w word memcall list" where
  "readValueWithDependentType host mem values ev index name t b =
     (case event_get host ev (bind_value b) of
        Inl e \<Rightarrow> (Inl e, [])
      | Inr x \<Rightarrow>
          (case obj_set host empty_object (bind_property b) x of
             Inl e \<Rightarrow> (Inl e, [])
           | Inr typeParameters \<Rightarrow>
               store host ev name
                 (parse host mem t (value_at values index) (Some typeParameters))))"

definition readValueConditionally :: "('w::len) word host \<Rightarrow> 'w word memory
    \<Rightarrow> 'w word jsval list \<Rightarrow> 'w word event \<Rightarrow> nat \<Rightarrow> string \<Rightarrow> vtype
    \<Rightarrow> 'w word condition \<Rightarrow> (error + 'w word event) \<times> 'w word memcall list" where
  "readValueConditionally host mem values ev index name t c =
     (case event_get host ev (cond_value c) of
        Inl e \<Rightarrow> (Inl e, [])
      | Inr x \<Rightarrow>
          (case cond_predicate c x of
             Inl e \<Rightarrow> (Inl e, [])
           | Inr r \<Rightarrow>
               if truthy r then readValue host mem values ev index name t else (Inr ev, [])))"

definition readValueWithDependentTypeConditionally :: "('w::len) word host
    \<Rightarrow> 'w word memory \<Rightarrow> 'w word jsval list \<Rightarrow> 'w word event \<Rightarrow> nat \<Rightarrow> string \<Rightarrow> vtype
    \<Rightarrow> binding \<Rightarrow> 'w word condition \<Rightarrow> (error + 'w word event) \<times> 'w word memcall list" where
  "readValueWithDependentTypeConditionally host mem values ev index name t b c =
     (case event_get host ev (cond_value c) of
        Inl e \<Rightarrow> (Inl e, [])
      | Inr x \<Rightarrow>
          (case cond_predicate c x of
             Inl e \<Rightarrow> (Inl e, [])
           | Inr r \<Rightarrow>
               if truthy r then readValueWithDependentType host mem values ev index name t b
               else (Inr ev, [])))"

fun run_action :: "('w::len) word host \<Rightarrow> 'w word memory \<Rightarrow> 'w word jsval list
    \<Rightarrow> 'w word event \<Rightarrow> 'w word action
    \<Rightarrow> (error + 'w word event) \<times> 'w word memcall list" where
  "run_action host mem values ev (ReadValue index name t) =
     readValue host mem values ev index name t"
| "run_action host mem values ev (ReadValueConditionally index name t c) =
     readValueConditionally host mem values ev index name t c"
| "run_action host mem values ev (ReadValueWithDependentType index name t b) =
     readValueWithDependentType host mem values ev index name t b"
| "run_action host mem values ev (ReadValueWithDependentTypeConditionally index name t b c) =
     readValueWithDependentTypeConditionally host mem values ev index name t b c"

text \<open>The \<open>for\<close> loop over an action list; an exception leaves the loop.\<close>

fun run_actions :: "('w::len) word host \<Rightarrow> 'w word memory \<Rightarrow> 'w word jsval list
    \<Rightarrow> 'w word event \<Rightarrow> 'w word action list
    \<Rightarrow> (error + 'w word event) \<times> 'w word memcall list" where
  "run_actions host mem values ev [] = (Inr ev, [])"
| "run_actions host mem values ev (a # as) =
     (case run_action host mem values ev a of
        (Inl e, reads) \<Rightarrow> (Inl e, reads)
      | (Inr ev', reads) \<Rightarrow>
          (case run_actions host mem values ev' as of (r, reads') \<Rightarrow> (r, reads @ reads')))"

section \<open>The interceptor\<close>

text \<open>
  What the code does to the outside is a list of effects, in order: requests to the
  \<open>Memory\<close> and \<open>Module\<close> collaborators, calls of the \<open>onError\<close> and \<open>onEvent\<close>
  callbacks, and calls of \<open>Interceptor.attach\<close>. The two sinks \<open>onError\<close> and
  \<open>onEvent\<close> and \<open>Interceptor.attach\<close> are taken to return normally. The optional
  \<open>onEnter\<close> and \<open>onLeave\<close> callbacks may change the event or raise.
\<close>

datatype message =
    FailedToResolve string string
  | FailedToReadVtable int error
  | CircularDependencies string

text \<open>
  The callbacks object given to \<open>Interceptor.attach\<close> closes over the function name, the
  number of arguments and the two compiled action lists.
\<close>

record 'p hook =
  hook_name :: string
  hook_numArgs :: nat
  hook_inputActions :: "'p action list"
  hook_outputActions :: "'p action list"

datatype 'p effect =
    MemRead "'p memcall"
  | FindExport string string
  | OnError message
  | Attach "'p jsval" "'p hook"
  | OnEvent "'p event"

record 'p callbacks =
  cb_onEnter :: "('p event \<Rightarrow> (nat \<Rightarrow> 'p) \<Rightarrow> error + 'p event) option"
  cb_onLeave :: "('p event \<Rightarrow> 'p \<Rightarrow> error + 'p event) option"

text \<open>The state that \<open>onEnter\<close> leaves on the invocation context \<open>this\<close> for \<open>onLeave\<close>.\<close>

record 'p invocation =
  inv_values :: "'p jsval list"
  inv_event :: "'p event"

definition intercept :: "'p func_spec \<Rightarrow> 'p jsval \<Rightarrow> 'p effect list" where
  "intercept f impl =
     (case computeActions f of
        (ok, inputActions, outputActions) \<Rightarrow>
          if \<not> ok then [OnError (CircularDependencies (func_name f))]
          else [Attach impl \<lparr>hook_name = func_name f, hook_numArgs = length (func_args f),
                  hook_inputActions = inputActions, hook_outputActions = outputActions\<rparr>])"

definition hook_onEnter :: "('w::len) word host \<Rightarrow> 'w word callbacks \<Rightarrow> 'w word hook
    \<Rightarrow> 'w word memory \<Rightarrow> (nat \<Rightarrow> 'w word)
    \<Rightarrow> (error + 'w word invocation) \<times> 'w word effect list" where
  "hook_onEnter host cbs h mem args =
     (let values = map (\<lambda>i. JPtr (args i)) [0..<hook_numArgs h];
          event = Event (hook_name h)
      in case run_actions host mem values event (hook_inputActions h) of
           (Inl e, reads) \<Rightarrow> (Inl e, map MemRead reads)
         | (Inr ev, reads) \<Rightarrow>
             (case cb_onEnter cbs of
                None \<Rightarrow> (Inr \<lparr>inv_values = values, inv_event = ev\<rparr>, map MemRead reads)
              | Some onEnter \<Rightarrow>
                  (case onEnter ev args of
                     Inl e \<Rightarrow> (Inl e, map MemRead reads)
                   | Inr ev' \<Rightarrow>
                       (Inr \<lparr>inv_values = values, inv_event = ev'\<rparr>, map MemRead reads))))"

text \<open>
  \<open>onLeave\<close> reads \<open>this.values\<close> and \<open>this.event\<close>; when \<open>onEnter\<close> raised before
  storing them, \<open>this\<close> holds nothing and \<open>values.push\<close> raises a TypeError.
\<close>

definition hook_onLeave :: "('w::len) word host \<Rightarrow> 'w word callbacks \<Rightarrow> 'w word hook
    \<Rightarrow> 'w word memory \<Rightarrow> 'w word invocation option \<Rightarrow> 'w word
    \<Rightarrow> (error + unit) \<times> 'w word effect list" where
  "hook_onLeave host cbs h mem this retword =
     (case this of
        None \<Rightarrow> (Inl TypeError, [])
      | Some st \<Rightarrow>
          (let values = inv_values st @ [JPtr retword]
           in case run_actions host mem values (inv_event st) (hook_outputActions h) of
                (Inl e, reads) \<Rightarrow> (Inl e, map MemRead reads)
              | (Inr ev, reads) \<Rightarrow>
                  (case cb_onLeave cbs of
                     None \<Rightarrow> (Inr (), map MemRead reads @ [OnEvent ev])
                   | Some onLeave \<Rightarrow>
                       (case onLeave ev retword of
                          Inl e \<Rightarrow> (Inl e, map MemRead reads)
                        | Inr ev' \<Rightarrow> (Inr (), map MemRead reads @ [OnEvent ev'])))))"

section \<open>The target resolver\<close>

text \<open>
  An element of \<open>functions\<close> is a function schema or, in vtable mode, the one-element
  array that \<open>padding\<close> builds. \<open>trace\<close> tests \<open>module\<close> first and \<open>vtable\<close> second.
\<close>

datatype 'p entry = PaddingEntry int | FuncEntry "'p func_spec"

definition padding :: "int \<Rightarrow> 'p entry" where
  "padding n = PaddingEntry n"

datatype 'p target = Module string "'p func_spec list" | Vtable 'p "'p entry list" | Unspecified

record 'p process =
  pointerSize :: int
  findExportByName :: "string \<Rightarrow> string \<Rightarrow> 'p option"
  memory :: "'p memory"

fun trace_module :: "'p process \<Rightarrow> string \<Rightarrow> 'p func_spec list \<Rightarrow> 'p effect list" where
  "trace_module env m [] = []"
| "trace_module env m (f # fs) =
     (case findExportByName env m (func_name f) of
        None \<Rightarrow> [FindExport m (func_name f), OnError (FailedToResolve m (func_name f))]
      | Some impl \<Rightarrow> FindExport m (func_name f) # intercept f (JPtr impl))
     @ trace_module env m fs"

fun trace_vtable :: "('w::len) word process \<Rightarrow> 'w word \<Rightarrow> int \<Rightarrow> 'w word entry list
    \<Rightarrow> 'w word effect list" where
  "trace_vtable env vtable offset [] = []"
| "trace_vtable env vtable offset (PaddingEntry n # es) =
     trace_vtable env vtable (offset + n * pointerSize env) es"
| "trace_vtable env vtable offset (FuncEntry f # es) =
     (case memory env (ReadPointer (vtable + word_of_int offset)) of
        Inl e \<Rightarrow>
          [MemRead (ReadPointer (vtable + word_of_int offset)),
           OnError (FailedToReadVtable offset e)]
      | Inr impl \<Rightarrow>
          MemRead (ReadPointer (vtable + word_of_int offset))
          # intercept f impl
          @ trace_vtable env vtable (offset + pointerSize env) es)"

definition trace :: "('w::len) word process \<Rightarrow> 'w word target
    \<Rightarrow> (error + unit) \<times> 'w word effect list" where
  "trace env spec =
     (case spec of
        Module m functions \<Rightarrow> (Inr (), trace_module env m functions)
      | Vtable vtable functions \<Rightarrow> (Inr (), trace_vtable env vtable 0 functions)
      | Unspecified \<Rightarrow> (Inl (Thrown ''Either a module or a vtable must be specified''), []))"

fun mem_reads :: "'p effect list \<Rightarrow> 'p memcall list" where
  "mem_reads [] = []"
| "mem_reads (MemRead c # es) = c # mem_reads es"
| "mem_reads (e # es) = mem_reads es"

section \<open>Properties of the scheduler\<close>

text \<open>
  What a scan, and the whole loop, add: a list \<open>new\<close> of descriptors with their
  indices, whose names are appended to the satisfied set and whose actions are appended to
  the action list; these names are new and pairwise different.
\<close>

definition names_of :: "('p argument \<times> nat) list \<Rightarrow> string list" where
  "names_of new = map (\<lambda>x. arg_name (fst x)) new"

definition actions_of :: "('p argument \<times> nat) list \<Rightarrow> 'p action list" where
  "actions_of new = map (\<lambda>x. computeAction (fst x) (snd x)) new"

definition extends :: "('p argument \<times> nat) set \<Rightarrow> string list \<times> 'p action list
    \<Rightarrow> string list \<times> 'p action list \<Rightarrow> ('p argument \<times> nat) list \<Rightarrow> bool" where
  "extends X st st' new \<longleftrightarrow>
     st' = (fst st @ names_of new, snd st @ actions_of new) \<and> set new \<subseteq> X
     \<and> distinct (names_of new) \<and> set (names_of new) \<inter> set (fst st) = {}"

lemma extends_refl: "extends X st st []"
  by (simp add: extends_def names_of_def actions_of_def)

lemma extends_trans:
  assumes "extends X st st' n0" and "extends X st' st'' n1"
  shows "extends X st st'' (n0 @ n1)"
  using assms unfolding extends_def names_of_def actions_of_def
  by (simp add: Int_Un_distrib disjoint_iff) blast

lemma extends_mono: "extends X st st' new \<Longrightarrow> X \<subseteq> Y \<Longrightarrow> extends Y st st' new"
  by (auto simp: extends_def)

lemma scan_step_extends: "\<exists>new. extends {x} st (scan_step st x) new"
proof (cases st; cases x)
  fix satisfied actions a index
  assume st: "st = (satisfied, actions)" and x: "x = (a, index)"
  show ?thesis
  proof (cases "arg_name a \<notin> set satisfied
      \<and> filter (\<lambda>dep. dep \<notin> set satisfied) (arg_requires a) = []")
    case True
    then have "extends {x} st (scan_step st x) [x]"
      by (simp add: st x extends_def names_of_def actions_of_def set_add_def)
    then show ?thesis ..
  next
    case False
    then have "scan_step st x = st" by (auto simp: st x)
    then show ?thesis using extends_refl [of "{x}" st] by auto
  qed
qed

lemma foldl_scan_step_extends: "\<exists>new. extends (set xs) st (foldl scan_step st xs) new"
proof (induction xs arbitrary: st)
  case Nil
  show ?case using extends_refl [of "{}" st] by auto
next
  case (Cons x xs)
  obtain n0 where "extends {x} st (scan_step st x) n0"
    using scan_step_extends by blast
  then have n0: "extends (set (x # xs)) st (scan_step st x) n0"
    by (rule extends_mono) simp
  obtain n1 where "extends (set xs) (scan_step st x) (foldl scan_step (scan_step st x) xs) n1"
    using Cons.IH by blast
  then have "extends (set (x # xs)) (scan_step st x) (foldl scan_step (scan_step st x) xs) n1"
    by (rule extends_mono) auto
  then have n1: "extends (set (x # xs)) (scan_step st x) (foldl scan_step st (x # xs)) n1"
    by simp
  show ?case using extends_trans [OF n0 n1] by blast
qed

lemma scan_extends: "\<exists>new. extends (set (zip as [0..<length as])) st (scan as st) new"
  unfolding scan_def by (rule foldl_scan_step_extends)

lemma closure_extends: "\<exists>new. extends (set (zip as [0..<length as])) st (closure as st) new"
proof (induction as st rule: closure.induct)
  case (1 as st)
  obtain n0 where n0: "extends (set (zip as [0..<length as])) st (scan as st) n0"
    using scan_extends by blast
  show ?case
  proof (cases "length (fst (scan as st)) \<noteq> length (fst st)")
    case True
    then obtain n1 where
      "extends (set (zip as [0..<length as])) (scan as st) (closure as (scan as st)) n1"
      using "1.IH" by blast
    moreover have "closure as st = closure as (scan as st)"
      using True by (subst closure.simps) (simp add: Let_def)
    ultimately show ?thesis using extends_trans [OF n0] by metis
  next
    case False
    then have "closure as st = scan as st"
      by (subst closure.simps) (simp add: Let_def)
    then show ?thesis using n0 by auto
  qed
qed

text \<open>The loop stops at a scan that schedules nothing: no descriptor is then ready.\<close>

definition ready :: "string list \<Rightarrow> 'p argument \<Rightarrow> bool" where
  "ready satisfied a \<longleftrightarrow> arg_name a \<notin> set satisfied \<and> set (arg_requires a) \<subseteq> set satisfied"

lemma scan_step_length: "length (fst st) \<le> length (fst (scan_step st x))"
  by (cases st; cases x) (simp add: set_add_def)

lemma foldl_scan_step_length: "length (fst st) \<le> length (fst (foldl scan_step st xs))"
proof (induction xs arbitrary: st)
  case Nil
  show ?case by simp
next
  case (Cons x xs)
  have "length (fst st) \<le> length (fst (scan_step st x))" by (rule scan_step_length)
  also have "\<dots> \<le> length (fst (foldl scan_step (scan_step st x) xs))" by (rule Cons.IH)
  finally show ?case by simp
qed

lemma scan_step_stable:
  assumes "length (fst (scan_step st x)) = length (fst st)"
  shows "scan_step st x = st \<and> \<not> ready (fst st) (fst x)"
  using assms
  by (cases st; cases x) (auto simp: set_add_def ready_def filter_empty_conv split: if_splits)

lemma foldl_scan_step_stable:
  assumes "length (fst (foldl scan_step st xs)) = length (fst st)" and "x \<in> set xs"
  shows "\<not> ready (fst st) (fst x)"
  using assms
proof (induction xs arbitrary: st)
  case Nil
  then show ?case by simp
next
  case (Cons y ys)
  have "length (fst (scan_step st y)) \<le> length (fst (foldl scan_step (scan_step st y) ys))"
    by (rule foldl_scan_step_length)
  with Cons.prems(1) scan_step_length [of st y]
  have eq: "length (fst (scan_step st y)) = length (fst st)" by simp
  then have same: "scan_step st y = st" and y: "\<not> ready (fst st) (fst y)"
    using scan_step_stable by blast+
  show ?case
  proof (cases "x = y")
    case True
    with y show ?thesis by simp
  next
    case False
    with Cons.prems(2) have "x \<in> set ys" by simp
    moreover have "length (fst (foldl scan_step st ys)) = length (fst st)"
      using Cons.prems(1) same by simp
    ultimately show ?thesis by (rule Cons.IH [rotated])
  qed
qed

lemma scan_stable:
  assumes "length (fst (scan as st)) = length (fst st)" and "a \<in> set as"
  shows "scan as st = st \<and> \<not> ready (fst st) a"
proof -
  obtain new where new: "extends (set (zip as [0..<length as])) st (scan as st) new"
    using scan_extends by blast
  with assms(1) have "new = []"
    by (simp add: extends_def names_of_def)
  with new have same: "scan as st = st"
    by (simp add: extends_def names_of_def actions_of_def)
  obtain i where "i < length as" and "as ! i = a"
    using assms(2) by (auto simp: in_set_conv_nth)
  then have "(a, i) \<in> set (zip as [0..<length as])"
    by (auto simp: in_set_zip)
  with assms(1) have "\<not> ready (fst st) (fst (a, i))"
    unfolding scan_def by (rule foldl_scan_step_stable)
  with same show ?thesis by simp
qed

lemma closure_stable: "a \<in> set as \<Longrightarrow> \<not> ready (fst (closure as st)) a"
proof (induction as st rule: closure.induct)
  case (1 as st)
  show ?case
  proof (cases "length (fst (scan as st)) \<noteq> length (fst st)")
    case True
    moreover from True have "closure as st = closure as (scan as st)"
      by (subst closure.simps) (simp add: Let_def)
    ultimately show ?thesis using "1.IH" "1.prems" by simp
  next
    case False
    then have "closure as st = scan as st"
      by (subst closure.simps) (simp add: Let_def)
    moreover from False "1.prems" have "scan as st = st \<and> \<not> ready (fst st) a"
      using scan_stable by blast
    ultimately show ?thesis by simp
  qed
qed


subsection \<open>Schemas without a cycle are scheduled in full\<close>


definition dep_edges :: "'p argument list \<Rightarrow> (string \<times> string) set" where
  "dep_edges as = set (concat (map (\<lambda>a. map (\<lambda>r. (r, arg_name a)) (arg_requires a)) as))"


lemma dep_edges_iff:
  "(r, n) \<in> dep_edges as \<longleftrightarrow> (\<exists>a \<in> set as. arg_name a = n \<and> r \<in> set (arg_requires a))"
  by (auto simp: dep_edges_def)


text \<open>The two passes of \<open>computeActions\<close>, with what each adds.\<close>

definition passes :: "'p func_spec \<Rightarrow> ('p argument \<times> nat) list \<Rightarrow> ('p argument \<times> nat) list
    \<Rightarrow> bool" where
  "passes f new1 new2 \<longleftrightarrow>
     computeActions f =
       (\<not> list_ex (\<lambda>a. arg_name a \<notin> set (set_add ''$out'' (names_of new1) @ names_of new2))
            (all_args f),
        actions_of new1, actions_of new2)
     \<and> set new1 \<subseteq> set (zip (all_args f) [0..<length (all_args f)])
     \<and> set new2 \<subseteq> set (zip (all_args f) [0..<length (all_args f)])
     \<and> distinct (names_of new1) \<and> distinct (names_of new2)
     \<and> set (names_of new2) \<inter> set (set_add ''$out'' (names_of new1)) = {}
     \<and> (\<forall>a \<in> set (all_args f). \<not> ready (names_of new1) a)
     \<and> (\<forall>a \<in> set (all_args f).
           \<not> ready (set_add ''$out'' (names_of new1) @ names_of new2) a)"

lemma computeActions_passes: "\<exists>new1 new2. passes f new1 new2"
proof -
  let ?as = "all_args f"
  let ?Z = "set (zip ?as [0..<length ?as])"
  obtain new1 where n1: "extends ?Z ([], []) (closure ?as ([], [])) new1"
    using closure_extends by blast
  then have c1: "closure ?as ([], []) = (names_of new1, actions_of new1)"
    by (simp add: extends_def)
  let ?st = "(set_add ''$out'' (names_of new1), []) :: string list \<times> 'a action list"
  obtain new2 where n2: "extends ?Z ?st (closure ?as ?st) new2"
    using closure_extends by blast
  then have c2: "closure ?as ?st
      = (set_add ''$out'' (names_of new1) @ names_of new2, actions_of new2)"
    by (simp add: extends_def)
  have ca: "computeActions f =
       (\<not> list_ex (\<lambda>a. arg_name a \<notin> set (set_add ''$out'' (names_of new1) @ names_of new2))
            (all_args f),
        actions_of new1, actions_of new2)"
    by (simp add: computeActions_def Let_def c1 c2)
  have s1: "set new1 \<subseteq> ?Z" and d1: "distinct (names_of new1)"
    using n1 by (simp_all add: extends_def)
  have s2: "set new2 \<subseteq> ?Z" and d2: "distinct (names_of new2)"
    using n2 by (simp_all add: extends_def)
  have dj: "set (names_of new2) \<inter> set (set_add ''$out'' (names_of new1)) = {}"
    using n2 by (simp add: extends_def)
  have r1: "\<forall>a \<in> set ?as. \<not> ready (names_of new1) a"
  proof
    fix a assume "a \<in> set ?as"
    then show "\<not> ready (names_of new1) a"
      using closure_stable [of a ?as "([], [])"] c1 by simp
  qed
  have r2: "\<forall>a \<in> set ?as. \<not> ready (set_add ''$out'' (names_of new1) @ names_of new2) a"
  proof
    fix a assume "a \<in> set ?as"
    then show "\<not> ready (set_add ''$out'' (names_of new1) @ names_of new2) a"
      using closure_stable [of a ?as ?st] c2 by simp
  qed
  have "passes f new1 new2"
    unfolding passes_def using ca s1 s2 d1 d2 dj r1 r2 by (intro conjI)
  then show ?thesis by blast
qed

lemma set_set_add: "set (set_add x xs) = insert x (set xs)"
  by (auto simp: set_add_def)












subsection \<open>Example schemas\<close>

text \<open>
  \<open>positive\<close> is the predicate \<open>x => x > 0\<close>. \<open>roundtrip\<close> is a schema with an input,
  an output that is read when the input is positive, and a return value; \<open>dangling\<close> has
  a condition on a name that no descriptor has; in \<open>mutual\<close> and \<open>sentinel_cycle\<close> two
  conditions point at each other, and one descriptor of \<open>sentinel_cycle\<close> is named
  \<open>$out\<close>; \<open>inout_only\<close> has one IN_OUT descriptor.
\<close>

definition positive :: "'p jsval \<Rightarrow> error + 'p jsval" where
  "positive v = (case v of JNum n \<Rightarrow> Inr (JBool (0 < n)) | _ \<Rightarrow> Inr (JBool False))"

definition roundtrip :: "64 word func_spec" where
  "roundtrip = func ''f'' (Some (retval (Plain TInt) None))
     [argIn ''a'' (Plain TInt) None,
      argOut ''b'' (Plain TInt) (Some (when_cond ''a'' positive))]"


definition sentinel_cycle :: "64 word func_spec" where
  "sentinel_cycle = func ''f'' None
     [argIn ''$out'' (Plain TInt) (Some (when_cond ''b'' positive)),
      argIn ''b'' (Plain TInt) (Some (when_cond ''$out'' positive))]"

definition mutual :: "64 word func_spec" where
  "mutual = func ''f'' None
     [argIn ''a'' (Plain TInt) (Some (when_cond ''b'' positive)),
      argIn ''b'' (Plain TInt) (Some (when_cond ''a'' positive))]"

definition inout_only :: "64 word func_spec" where
  "inout_only = func ''f'' None [argInOut ''x'' (Plain TInt) None]"

lemmas schema_defs = func_def retval_def argIn_def argOut_def argInOut_def arg_def
  dependencies_def when_cond_def bind_def all_args_def

lemmas compile_defs = computeActions_def closure.simps scan_def set_add_def computeAction_def
  upt_rec

lemma roundtrip_compiled:
  "computeActions roundtrip =
     (True, [ReadValue 0 ''a'' TInt],
      [ReadValueConditionally 1 ''b'' TInt (when_cond ''a'' positive), ReadValue 2 ''result'' TInt])"
  by (simp add: roundtrip_def schema_defs compile_defs)


lemma sentinel_cycle_compiled:
  "computeActions sentinel_cycle =
     (True, [], [ReadValueConditionally 1 ''b'' TInt (when_cond ''$out'' positive)])"
  by (simp add: sentinel_cycle_def schema_defs compile_defs)

lemma mutual_compiled: "computeActions mutual = (False, [], [])"
  by (simp add: mutual_def schema_defs compile_defs)

lemma inout_only_compiled: "computeActions inout_only = (True, [ReadValue 0 ''x'' TInt], [])"
  by (simp add: inout_only_def schema_defs compile_defs)




lemma sentinel_cycle_cyclic: "\<not> acyclic (dep_edges (all_args sentinel_cycle))"
proof -
  have "(''b'', ''$out'') \<in> dep_edges (all_args sentinel_cycle)"
    and "(''$out'', ''b'') \<in> dep_edges (all_args sentinel_cycle)"
    by (simp_all add: sentinel_cycle_def schema_defs dep_edges_def)
  then have "(''b'', ''b'') \<in> (dep_edges (all_args sentinel_cycle))\<^sup>+"
    by (rule trancl_into_trancl [OF r_into_trancl])
  then show ?thesis unfolding acyclic_def by blast
qed

lemma mutual_cyclic: "\<not> acyclic (dep_edges (all_args mutual))"
proof -
  have "(''b'', ''a'') \<in> dep_edges (all_args mutual)"
    and "(''a'', ''b'') \<in> dep_edges (all_args mutual)"
    by (simp_all add: mutual_def schema_defs dep_edges_def)
  then have "(''b'', ''b'') \<in> (dep_edges (all_args mutual))\<^sup>+"
    by (rule trancl_into_trancl [OF r_into_trancl])
  then show ?thesis unfolding acyclic_def by blast
qed





subsection \<open>Cycles\<close>

definition on_cycle :: "'p argument list \<Rightarrow> string set" where
  "on_cycle as = {x. (x, x) \<in> (dep_edges as)\<^sup>+}"

lemma on_cycle_pred:
  assumes "x \<in> on_cycle as"
  shows "\<exists>y \<in> on_cycle as. (y, x) \<in> dep_edges as"
proof -
  from assms have xx: "(x, x) \<in> (dep_edges as)\<^sup>+" by (simp add: on_cycle_def)
  then show ?thesis
  proof (cases rule: tranclE)
    case base
    with assms show ?thesis by blast
  next
    case (step y)
    then have "(y, y) \<in> (dep_edges as)\<^sup>+" by (simp add: trancl_into_trancl2)
    then have "y \<in> on_cycle as" by (simp add: on_cycle_def)
    with step(2) show ?thesis by blast
  qed
qed

lemma on_cycle_named: "x \<in> on_cycle as \<Longrightarrow> x \<in> arg_name ` set as"
  using on_cycle_pred [of x as] by (auto simp: dep_edges_iff)

lemma scan_step_avoids_cycle:
  assumes uniq: "distinct (map arg_name as)"
    and mem: "fst x \<in> set as"
    and inv: "set (fst st) \<inter> on_cycle as = {}"
  shows "set (fst (scan_step st x)) \<inter> on_cycle as = {}"
proof (cases "scan_step st x = st")
  case True
  with inv show ?thesis by simp
next
  case False
  obtain satisfied actions a index where st: "st = (satisfied, actions)" and x: "x = (a, index)"
    by (cases st; cases x) blast
  from False have fresh: "arg_name a \<notin> set satisfied"
    and req: "set (arg_requires a) \<subseteq> set satisfied"
    and res: "fst (scan_step st x) = set_add (arg_name a) satisfied"
    by (auto simp: st x filter_empty_conv split: if_splits)
  have "arg_name a \<notin> on_cycle as"
  proof
    assume "arg_name a \<in> on_cycle as"
    then obtain y where y: "y \<in> on_cycle as" "(y, arg_name a) \<in> dep_edges as"
      using on_cycle_pred by blast
    then obtain a' where a': "a' \<in> set as" "arg_name a' = arg_name a" "y \<in> set (arg_requires a')"
      by (auto simp: dep_edges_iff)
    from uniq have "inj_on arg_name (set as)" by (simp add: distinct_map)
    with a'(1,2) mem have "a' = a" by (auto simp: x dest: inj_onD)
    with a'(3) req have "y \<in> set satisfied" by blast
    with y(1) inv show False by (auto simp: st)
  qed
  moreover have "set (fst (scan_step st x)) = insert (arg_name a) (set (fst st))"
    unfolding res by (simp add: st set_set_add)
  ultimately show ?thesis using inv by simp
qed

lemma foldl_scan_step_avoids_cycle:
  assumes "distinct (map arg_name as)" and "fst ` set xs \<subseteq> set as"
    and "set (fst st) \<inter> on_cycle as = {}"
  shows "set (fst (foldl scan_step st xs)) \<inter> on_cycle as = {}"
  using assms(2,3)
proof (induction xs arbitrary: st)
  case Nil
  then show ?case by simp
next
  case (Cons x xs)
  from Cons.prems(1) have "fst x \<in> set as" by simp
  with assms(1) have "set (fst (scan_step st x)) \<inter> on_cycle as = {}"
    using Cons.prems(2) by (rule scan_step_avoids_cycle)
  moreover from Cons.prems(1) have "fst ` set xs \<subseteq> set as" by simp
  ultimately have "set (fst (foldl scan_step (scan_step st x) xs)) \<inter> on_cycle as = {}"
    by (rule Cons.IH [rotated])
  then show ?case by simp
qed

lemma scan_avoids_cycle:
  assumes "distinct (map arg_name as)" and "set (fst st) \<inter> on_cycle as = {}"
  shows "set (fst (scan as st)) \<inter> on_cycle as = {}"
proof -
  have "fst ` set (zip as [0..<length as]) \<subseteq> set as"
    by (auto dest: set_zip_leftD)
  with assms(1) show ?thesis
    unfolding scan_def using assms(2) by (rule foldl_scan_step_avoids_cycle)
qed

lemma closure_avoids_cycle:
  assumes "distinct (map arg_name as)" and "set (fst st) \<inter> on_cycle as = {}"
  shows "set (fst (closure as st)) \<inter> on_cycle as = {}"
  using assms
proof (induction as st rule: closure.induct)
  case (1 as st)
  have sc: "set (fst (scan as st)) \<inter> on_cycle as = {}"
    using "1.prems" by (rule scan_avoids_cycle)
  show ?case
  proof (cases "length (fst (scan as st)) \<noteq> length (fst st)")
    case True
    then have "closure as st = closure as (scan as st)"
      by (subst closure.simps) (simp add: Let_def)
    moreover have "set (fst (closure as (scan as st))) \<inter> on_cycle as = {}"
      using True "1.prems"(1) sc by (intro "1.IH") simp_all
    ultimately show ?thesis by simp
  next
    case False
    then have "closure as st = scan as st"
      by (subst closure.simps) (simp add: Let_def)
    with sc show ?thesis by simp
  qed
qed

lemma computeActions_fst:
  "fst (computeActions f) =
     (\<not> list_ex (\<lambda>a. arg_name a \<notin> set (fst (closure (all_args f)
          (set_add ''$out'' (fst (closure (all_args f) ([], []))), [])))) (all_args f))"
  by (simp add: computeActions_def Let_def split: prod.splits)

lemma cyclic_not_compiled:
  assumes uniq: "distinct (map arg_name (all_args f))"
    and nout: "''$out'' \<notin> set (map arg_name (all_args f))"
    and cyc: "\<not> acyclic (dep_edges (all_args f))"
  shows "\<not> fst (computeActions f)"
proof -
  let ?as = "all_args f"
  let ?s1 = "fst (closure ?as ([], []))"
  let ?s2 = "fst (closure ?as (set_add ''$out'' ?s1, []))"
  have "set (fst (([], []) :: string list \<times> 'a action list)) \<inter> on_cycle ?as = {}" by simp
  with uniq have a1: "set ?s1 \<inter> on_cycle ?as = {}" by (rule closure_avoids_cycle)
  have "''$out'' \<notin> on_cycle ?as"
  proof
    assume "''$out'' \<in> on_cycle ?as"
    then have "''$out'' \<in> arg_name ` set ?as" by (rule on_cycle_named)
    with nout show False by simp
  qed
  with a1 have "set (fst (set_add ''$out'' ?s1, [] :: 'a action list)) \<inter> on_cycle ?as = {}"
    by (simp add: set_set_add)
  with uniq have a2: "set ?s2 \<inter> on_cycle ?as = {}" by (rule closure_avoids_cycle)
  from cyc obtain x where "x \<in> on_cycle ?as"
    by (auto simp: acyclic_def on_cycle_def)
  moreover from this obtain a where "a \<in> set ?as" "arg_name a = x"
    using on_cycle_named by blast
  ultimately have "\<exists>a \<in> set ?as. arg_name a \<notin> set ?s2" using a2 by blast
  then have "list_ex (\<lambda>a. arg_name a \<notin> set ?s2) ?as" by (simp add: list_ex_iff)
  then show ?thesis unfolding computeActions_fst by simp
qed

lemma intercept_not_compiled:
  "\<not> fst (computeActions f) \<Longrightarrow> intercept f impl = [OnError (CircularDependencies (func_name f))]"
  by (cases "computeActions f") (simp add: intercept_def)

text \<open>
  Claim C4, amended. For a schema whose descriptor names are pairwise different, none of
  them \<open>$out\<close>, and whose descriptors form a dependency cycle, \<open>computeActions\<close>
  returns false; the interceptor then calls \<open>onError\<close> once with the circular-dependency
  error and does not call \<open>Interceptor.attach\<close>; and the walk over the remaining
  functions of the module or entries of the vtable goes on.
\<close>

theorem cyclic_schema_not_hooked:
  assumes "distinct (map arg_name (all_args f))"
    and "''$out'' \<notin> set (map arg_name (all_args f))"
    and "\<not> acyclic (dep_edges (all_args f))"
  shows "\<not> fst (computeActions f)
    \<and> intercept f impl = [OnError (CircularDependencies (func_name f))]
    \<and> trace_module env m (f # fs) =
        (case findExportByName env m (func_name f) of
           None \<Rightarrow> [FindExport m (func_name f), OnError (FailedToResolve m (func_name f))]
         | Some target \<Rightarrow>
             [FindExport m (func_name f), OnError (CircularDependencies (func_name f))])
        @ trace_module env m fs
    \<and> (memory env (ReadPointer (vtable + word_of_int offset)) = Inr impl \<longrightarrow>
         trace_vtable env vtable offset (FuncEntry f # es) =
           [MemRead (ReadPointer (vtable + word_of_int offset)),
            OnError (CircularDependencies (func_name f))]
           @ trace_vtable env vtable (offset + pointerSize env) es)"
proof -
  have no: "\<not> fst (computeActions f)" using assms by (rule cyclic_not_compiled)
  then have i: "\<And>target. intercept f target = [OnError (CircularDependencies (func_name f))]"
    by (rule intercept_not_compiled)
  show ?thesis using no by (simp add: i split: option.splits)
qed


definition sample_slots :: "64 word memory" where
  "sample_slots c = Inr (JPtr 8192)"

definition sample_exports :: "string \<Rightarrow> string \<Rightarrow> 64 word option" where
  "sample_exports m n = Some 8192"

definition sample_process :: "64 word process" where
  "sample_process =
     \<lparr>pointerSize = 8, findExportByName = sample_exports, memory = sample_slots\<rparr>"

theorem cyclic_schema_not_hooked_witness:
  "distinct (map arg_name (all_args mutual))
   \<and> ''$out'' \<notin> set (map arg_name (all_args mutual))
   \<and> \<not> acyclic (dep_edges (all_args mutual))
   \<and> \<not> fst (computeActions mutual)
   \<and> intercept mutual (JPtr 8192) = [OnError (CircularDependencies ''f'')]
   \<and> memory sample_process (ReadPointer (4096 + word_of_int 0)) = Inr (JPtr 8192)
   \<and> trace_vtable sample_process 4096 0 [FuncEntry mutual, FuncEntry inout_only] =
       [MemRead (ReadPointer 4096), OnError (CircularDependencies ''f''),
        MemRead (ReadPointer 4104),
        Attach (JPtr 8192)
          \<lparr>hook_name = ''f'', hook_numArgs = 1,
           hook_inputActions = [ReadValue 0 ''x'' TInt], hook_outputActions = []\<rparr>]"
proof -
  have h1: "distinct (map arg_name (all_args mutual))"
    by (simp add: mutual_def schema_defs)
  have h2: "''$out'' \<notin> set (map arg_name (all_args mutual))"
    by (simp add: mutual_def schema_defs)
  have n: "func_name mutual = ''f''" by (simp add: mutual_def func_def)
  have m: "memory sample_process (ReadPointer (4096 + word_of_int 0)) = Inr (JPtr 8192)"
    by (simp add: sample_process_def sample_slots_def)
  have rest: "trace_vtable sample_process 4096 (0 + pointerSize sample_process)
      [FuncEntry inout_only] =
       [MemRead (ReadPointer 4104),
        Attach (JPtr 8192)
          \<lparr>hook_name = ''f'', hook_numArgs = 1,
           hook_inputActions = [ReadValue 0 ''x'' TInt], hook_outputActions = []\<rparr>]"
    by (simp add: sample_process_def sample_slots_def intercept_def inout_only_compiled)
       (simp add: inout_only_def func_def)
  note T = cyclic_schema_not_hooked [OF h1 h2 mutual_cyclic, of "JPtr 8192" sample_process
      "''m''" "[]" 4096 0 "[FuncEntry inout_only]", unfolded n]
  from T have a: "\<not> fst (computeActions mutual)" by (rule conjunct1)
  from T have b: "intercept mutual (JPtr 8192) = [OnError (CircularDependencies ''f'')]"
    by blast
  from T m have "trace_vtable sample_process 4096 0 (FuncEntry mutual # [FuncEntry inout_only]) =
      [MemRead (ReadPointer (4096 + word_of_int 0)), OnError (CircularDependencies ''f'')]
      @ trace_vtable sample_process 4096 (0 + pointerSize sample_process) [FuncEntry inout_only]"
    by blast
  then have c: "trace_vtable sample_process 4096 0 [FuncEntry mutual, FuncEntry inout_only] =
       [MemRead (ReadPointer 4096), OnError (CircularDependencies ''f''),
        MemRead (ReadPointer 4104),
        Attach (JPtr 8192)
          \<lparr>hook_name = ''f'', hook_numArgs = 1,
           hook_inputActions = [ReadValue 0 ''x'' TInt], hook_outputActions = []\<rparr>]"
    unfolding rest by simp
  from h1 h2 mutual_cyclic a b m c show ?thesis by (intro conjI)
qed

text \<open>
  Claim C4 as stated fails on \<open>sentinel_cycle\<close>: the conditions of its two descriptors
  point at each other, yet the sentinel added between the passes satisfies the descriptor
  named \<open>$out\<close>, the other one is scheduled at exit, and the hook is attached.
\<close>

theorem sentinel_cycle_counterexample:
  "distinct (map arg_name (all_args sentinel_cycle))
   \<and> \<not> acyclic (dep_edges (all_args sentinel_cycle))
   \<and> intercept sentinel_cycle (JPtr 8192) =
       [Attach (JPtr 8192)
          \<lparr>hook_name = ''f'', hook_numArgs = 2, hook_inputActions = [],
           hook_outputActions =
             [ReadValueConditionally 1 ''b'' TInt (when_cond ''$out'' positive)]\<rparr>]"
proof -
  have "distinct (map arg_name (all_args sentinel_cycle))"
    by (simp add: sentinel_cycle_def schema_defs)
  moreover have "intercept sentinel_cycle (JPtr 8192) =
       [Attach (JPtr 8192)
          \<lparr>hook_name = ''f'', hook_numArgs = 2, hook_inputActions = [],
           hook_outputActions =
             [ReadValueConditionally 1 ''b'' TInt (when_cond ''$out'' positive)]\<rparr>]"
    by (simp add: intercept_def sentinel_cycle_compiled) (simp add: sentinel_cycle_def schema_defs)
  ultimately show ?thesis using sentinel_cycle_cyclic by simp
qed

subsection \<open>Directions\<close>

fun act_name :: "'p action \<Rightarrow> string" where
  "act_name (ReadValue index name t) = name"
| "act_name (ReadValueConditionally index name t c) = name"
| "act_name (ReadValueWithDependentType index name t b) = name"
| "act_name (ReadValueWithDependentTypeConditionally index name t b c) = name"

lemma act_name_computeAction: "act_name (computeAction a i) = arg_name a"
  by (simp add: computeAction_def split: argtype.splits option.splits)

lemma inout_scheduled_at_entry:
  assumes uniq: "distinct (map arg_name (all_args f))"
    and i: "i < length (all_args f)"
    and a: "all_args f ! i = argInOut name (Plain t) None"
  shows "ReadValue i name t \<in> set (fst (snd (computeActions f)))
    \<and> ReadValue i name t \<notin> set (snd (snd (computeActions f)))"
proof -
  let ?as = "all_args f"
  let ?zs = "zip ?as [0..<length ?as]"
  obtain new1 new2 where p: "passes f new1 new2"
    using computeActions_passes by blast
  note P = p [unfolded passes_def]
  have ca: "computeActions f =
       (\<not> list_ex (\<lambda>a. arg_name a \<notin> set (set_add ''$out'' (names_of new1) @ names_of new2)) ?as,
        actions_of new1, actions_of new2)"
    using P by (elim conjE)
  have sub1: "set new1 \<subseteq> set ?zs" using P by (elim conjE)
  have disj: "set (names_of new2) \<inter> set (set_add ''$out'' (names_of new1)) = {}"
    using P by (elim conjE)
  have r1: "\<forall>a \<in> set ?as. \<not> ready (names_of new1) a" using P by (elim conjE)
  have mem: "?as ! i \<in> set ?as" using i by simp
  have nm: "arg_name (?as ! i) = name" and rq: "arg_requires (?as ! i) = []"
    and act: "computeAction (?as ! i) i = ReadValue i name t"
    by (simp_all add: a argInOut_def arg_def dependencies_def computeAction_def)
  from r1 mem have "\<not> ready (names_of new1) (?as ! i)" by (rule bspec)
  then have in1: "name \<in> set (names_of new1)" by (simp add: ready_def nm rq)
  then obtain x where x: "x \<in> set new1" "arg_name (fst x) = name"
    by (auto simp: names_of_def)
  with sub1 have "x \<in> set ?zs" by blast
  then obtain j where j: "j < length ?as" "x = (?as ! j, j)"
    by (auto simp: in_set_zip)
  with x(2) nm have "map arg_name ?as ! j = map arg_name ?as ! i" using i by simp
  moreover have "(map arg_name ?as ! j = map arg_name ?as ! i) = (j = i)"
    using uniq j(1) i by (intro nth_eq_iff_index_eq) simp_all
  ultimately have "j = i" by simp
  with j(2) x(1) have "(?as ! i, i) \<in> set new1" by simp
  then have "computeAction (fst (?as ! i, i)) (snd (?as ! i, i)) \<in> set (actions_of new1)"
    unfolding actions_of_def set_map by (rule imageI)
  then have first: "ReadValue i name t \<in> set (actions_of new1)" by (simp add: act)
  have second: "ReadValue i name t \<notin> set (actions_of new2)"
  proof
    assume "ReadValue i name t \<in> set (actions_of new2)"
    then obtain y where y: "y \<in> set new2" "computeAction (fst y) (snd y) = ReadValue i name t"
      by (auto simp: actions_of_def)
    have "act_name (computeAction (fst y) (snd y)) = arg_name (fst y)"
      by (rule act_name_computeAction)
    with y(2) have "arg_name (fst y) = name" by simp
    with y(1) have "name \<in> set (names_of new2)" by (auto simp: names_of_def)
    moreover from in1 have "name \<in> set (set_add ''$out'' (names_of new1))"
      by (simp add: set_set_add)
    ultimately show False using disj by blast
  qed
  show ?thesis using first second by (simp add: ca)
qed

text \<open>
  Claim C1, amended. The requires list of a descriptor holds \<open>$out\<close> exactly when its
  direction is OUT or its binding or condition names \<open>$out\<close> as source: an IN_OUT
  descriptor gets no \<open>$out\<close> of its own. An IN_OUT descriptor without binding and
  condition, in a schema of pairwise different names, is scheduled as an entry action and
  not as an exit action.
\<close>

theorem out_dependency_only_for_OUT:
  "(''$out'' \<in> set (arg_requires (arg d name ty c)) \<longleftrightarrow>
      d = OUT \<or> (\<exists>t' b. ty = Dependent t' b \<and> bind_value b = ''$out'')
      \<or> (\<exists>cd. c = Some cd \<and> cond_value cd = ''$out''))
   \<and> arg_direction (argIn name ty c) = IN
   \<and> arg_direction (argInOut name ty c) = IN_OUT
   \<and> arg_direction (argOut name ty c) = OUT
   \<and> arg_direction (retval ty c) = OUT
   \<and> arg_requires (argInOut name (Plain t) None) = []
   \<and> (distinct (map arg_name (all_args f)) \<and> i < length (all_args f)
        \<and> all_args f ! i = argInOut name (Plain t) None \<longrightarrow>
      ReadValue i name t \<in> set (fst (snd (computeActions f)))
      \<and> ReadValue i name t \<notin> set (snd (snd (computeActions f))))"
proof -
  have "''$out'' \<in> set (arg_requires (arg d name ty c)) \<longleftrightarrow>
      d = OUT \<or> (\<exists>t' b. ty = Dependent t' b \<and> bind_value b = ''$out'')
      \<or> (\<exists>cd. c = Some cd \<and> cond_value cd = ''$out'')"
    by (cases ty; cases c) (auto simp: arg_def dependencies_def)
  moreover have "arg_direction (argIn name ty c) = IN"
    "arg_direction (argInOut name ty c) = IN_OUT"
    "arg_direction (argOut name ty c) = OUT"
    "arg_direction (retval ty c) = OUT"
    "arg_requires (argInOut name (Plain t) None) = []"
    by (simp_all add: argIn_def argInOut_def argOut_def retval_def arg_def dependencies_def)
  ultimately show ?thesis using inout_scheduled_at_entry [of f i name t] by blast
qed

theorem out_dependency_only_for_OUT_witness:
  "distinct (map arg_name (all_args inout_only))
   \<and> 0 < length (all_args inout_only)
   \<and> all_args inout_only ! 0 = argInOut ''x'' (Plain TInt) None
   \<and> ReadValue 0 ''x'' TInt \<in> set (fst (snd (computeActions inout_only)))
   \<and> ReadValue 0 ''x'' TInt \<notin> set (snd (snd (computeActions inout_only)))
   \<and> ''$out'' \<notin> set (arg_requires (arg IN_OUT ''x'' (Plain TInt) None :: 64 word argument))"
proof -
  have h: "distinct (map arg_name (all_args inout_only))
      \<and> 0 < length (all_args inout_only)
      \<and> all_args inout_only ! 0 = argInOut ''x'' (Plain TInt) None"
    by (simp add: inout_only_def func_def all_args_def argInOut_def arg_def)
  note T = out_dependency_only_for_OUT
    [of IN_OUT "''x''" "Plain TInt" "None :: 64 word condition option" TInt inout_only 0]
  from T h have sched: "ReadValue 0 ''x'' TInt \<in> set (fst (snd (computeActions inout_only)))
      \<and> ReadValue 0 ''x'' TInt \<notin> set (snd (snd (computeActions inout_only)))"
    by blast
  from T have "(''$out'' \<in> set (arg_requires (arg IN_OUT ''x'' (Plain TInt) None :: 64 word argument)))
      = (IN_OUT = OUT \<or> (\<exists>t' b. Plain TInt = Dependent t' b \<and> bind_value b = ''$out'')
          \<or> (\<exists>cd :: 64 word condition. None = Some cd \<and> cond_value cd = ''$out''))"
    by (rule conjunct1)
  then have "''$out'' \<notin> set (arg_requires (arg IN_OUT ''x'' (Plain TInt) None :: 64 word argument))"
    by simp
  with h sched show ?thesis by (intro conjI) (elim conjE, assumption)+
qed

text \<open>
  Claim C1 as stated fails: the requires list of an IN_OUT descriptor does not hold
  \<open>$out\<close>, and the descriptor is scheduled at entry.
\<close>

theorem inout_counterexample:
  "arg_direction (argInOut ''x'' (Plain TInt) None :: 64 word argument) = IN_OUT
   \<and> ''$out'' \<notin> set (arg_requires (argInOut ''x'' (Plain TInt) None :: 64 word argument))
   \<and> computeActions inout_only = (True, [ReadValue 0 ''x'' TInt], [])"
  by (simp add: inout_only_compiled) (simp add: argInOut_def arg_def dependencies_def)


section \<open>The value decoders\<close>

text \<open>
  \<open>plain_host\<close> is a host whose objects supply no property of their own.
\<close>

definition plain_host :: "64 word host" where
  "plain_host h key = Absent"

text \<open>
  Claim C5. For every pointer type built with an inner reader, and so for the byte
  buffer and the two string types, parsing the null raw word returns \<open>null\<close> and sends
  no request to the memory collaborator, whatever the type parameters are.
\<close>

theorem null_pointer_decodes_to_null:
  "parse host mem (pointer (Some pointee)) (JPtr 0) parameters = (Inr Null, [])
   \<and> parse host mem BYTE_ARRAY (JPtr 0) parameters = (Inr Null, [])
   \<and> parse host mem UTF8 (JPtr 0) parameters = (Inr Null, [])
   \<and> parse host mem UTF16 (JPtr 0) parameters = (Inr Null, [])"
  by (simp add: pointer_def BYTE_ARRAY_def UTF8_def UTF16_def byteArray_def utf8_def utf16_def)

theorem null_pointer_decodes_to_null_witness:
  "parse plain_host (\<lambda>c. Inl (Thrown ''access violation'')) (pointer (Some (TypeReader TInt)))
     (JPtr (0 :: 64 word)) None = (Inr Null, [])
   \<and> parse plain_host (\<lambda>c. Inl (Thrown ''access violation'')) BYTE_ARRAY (JPtr (0 :: 64 word))
       None
     = (Inr Null, [])"
  using null_pointer_decodes_to_null
    [of plain_host "\<lambda>c. Inl (Thrown ''access violation'') :: error + 64 word jsval"
       "TypeReader TInt" None]
  by simp

text \<open>
  Claim C10. The plain \<open>POINTER\<close> type, built without a pointee, parses every raw value
  to itself and sends no request to the memory collaborator; the null word decodes to the
  null word, not to \<open>null\<close>.
\<close>

theorem plain_pointer_is_identity:
  "parse host mem POINTER rawValue parameters = (Inr rawValue, [])
   \<and> parse host mem POINTER (JPtr 0) parameters \<noteq> (Inr Null, [])"
  by (simp add: POINTER_def pointer_def)

theorem plain_pointer_is_identity_witness:
  "parse plain_host (\<lambda>c. Inl (Thrown ''access violation'')) POINTER (JPtr (0 :: 64 word)) None
     = (Inr (JPtr 0), [])"
  using plain_pointer_is_identity
    [of plain_host "\<lambda>c. Inl (Thrown ''access violation'')" "JPtr (0 :: 64 word)" None]
  by simp

text \<open>
  Claim C9. Parsing a non-null raw word as \<open>BYTE_ARRAY\<close> without type parameters raises
  a TypeError before any memory request is made, and so does the action compiled from a
  descriptor of that type without a binding; \<open>UTF8\<close> and \<open>UTF16\<close> instead ask the
  collaborator for a string of length \<open>-1\<close>.
\<close>

theorem byteArray_needs_length_binding:
  assumes "p \<noteq> 0"
  shows "parse host mem BYTE_ARRAY (JPtr p) None = (Inl TypeError, [])
    \<and> parse host mem UTF8 (JPtr p) None = call mem (ReadUtf8String p (JNum (- 1)))
    \<and> parse host mem UTF16 (JPtr p) None = call mem (ReadUtf16String p (JNum (- 1)))
    \<and> (value_at values index = JPtr p \<longrightarrow>
         run_action host mem values ev
           (computeAction (arg d name (Plain BYTE_ARRAY) None) index)
         = (Inl TypeError, []))"
  using assms
  by (simp add: BYTE_ARRAY_def UTF8_def UTF16_def byteArray_def utf8_def utf16_def pointer_def
      computeAction_def arg_def readValue_def store_def)

theorem byteArray_needs_length_binding_witness:
  "(4096 :: 64 word) \<noteq> 0
   \<and> value_at [JPtr (4096 :: 64 word)] 0 = JPtr 4096
   \<and> parse plain_host (\<lambda>c. Inr (JBytes [1, 2])) BYTE_ARRAY (JPtr (4096 :: 64 word)) None
       = (Inl TypeError, [])
   \<and> parse plain_host (\<lambda>c. Inr (JStr ''hi'')) UTF8 (JPtr (4096 :: 64 word)) None
       = (Inr (JStr ''hi''), [ReadUtf8String 4096 (JNum (- 1))])
   \<and> run_action plain_host (\<lambda>c. Inr (JBytes [1, 2])) [JPtr (4096 :: 64 word)] (Event ''f'')
         (computeAction (arg IN ''buf'' (Plain BYTE_ARRAY) None) 0)
       = (Inl TypeError, [])"
proof -
  have h: "(4096 :: 64 word) \<noteq> 0" by simp
  have v: "value_at [JPtr (4096 :: 64 word)] 0 = JPtr 4096" by (simp add: value_at_def)
  show ?thesis
    using byteArray_needs_length_binding [OF h, of plain_host "\<lambda>c. Inr (JBytes [1, 2])"
        "[JPtr 4096]" 0 "Event ''f''" IN "''buf''"]
      byteArray_needs_length_binding [OF h, of plain_host "\<lambda>c. Inr (JStr ''hi'')"
        "[JPtr 4096]" 0 "Event ''f''" IN "''buf''"]
      h v
    by (simp add: call_def)
qed

section \<open>The event\<close>

lemma obj_set_own:
  assumes "key \<in> dom (obj_own obj) \<or> obj_proto obj = NullPrototype
      \<or> (obj_proto obj = ObjectPrototype \<and> key \<noteq> ''__proto__'')"
  shows "obj_set host obj key v = Inr (obj\<lparr>obj_own := (obj_own obj)(key \<mapsto> v)\<rparr>)"
  using assms by (auto simp: obj_set_def lookup_def)

lemma obj_get_own: "obj_own obj key = Some v \<Longrightarrow> obj_get host obj key = Inr v"
  by (simp add: obj_get_def)

lemma obj_get_other:
  "key' \<noteq> key \<Longrightarrow>
   obj_get host (obj\<lparr>obj_own := (obj_own obj)(key \<mapsto> v)\<rparr>) key' = obj_get host obj key'"
  by (auto simp: obj_get_def split: option.splits)

lemma obj_set_proto:
  assumes "obj_own obj ''__proto__'' = None" and "obj_proto obj \<noteq> NullPrototype"
  shows "obj_set host obj ''__proto__'' v = Inr (set_prototype obj v)"
  using assms by (auto simp: obj_set_def)

lemma obj_own_set_prototype: "obj_own (set_prototype obj v) = obj_own obj"
  by (cases v) simp_all

text \<open>
  Claim C8, amended. \<open>set\<close> with the key \<open>result\<close> stores the value in the result
  field and leaves \<open>args\<close> as it is. \<open>set\<close> with any other key that is an own property
  of \<open>args\<close>, or that is not \<open>__proto__\<close> while \<open>args\<close> has the prototype of a plain
  object, or with any other key when \<open>args\<close> has no prototype, stores the value as an
  own property of \<open>args\<close> under that key and leaves the result field, the prototype and
  what every other key reads as they are. \<open>get\<close> reads the result field for the key
  \<open>result\<close> and \<open>args[key]\<close> for any other key: the own property when there is one, so
  what \<open>set\<close> stored, and \<open>undefined\<close> on a plain object for a key that is neither
  own nor supplied by \<open>Object.prototype\<close>. An assignment to \<open>__proto__\<close>, when it is not
  an own property and \<open>args\<close> has a prototype, creates no own property: it replaces the
  prototype or does nothing. The name of the event is never changed.
\<close>

theorem Event_set_get:
  "(\<exists>ev'. event_set host ev ''result'' v = Inr ev'
        \<and> ev_result ev' = Some v \<and> ev_args ev' = ev_args ev \<and> ev_name ev' = ev_name ev
        \<and> event_get host ev' ''result'' = Inr v)
   \<and> (k \<noteq> ''result''
        \<and> (k \<in> dom (obj_own (ev_args ev)) \<or> obj_proto (ev_args ev) = NullPrototype
            \<or> (obj_proto (ev_args ev) = ObjectPrototype \<and> k \<noteq> ''__proto__'')) \<longrightarrow>
       (\<exists>ev'. event_set host ev k v = Inr ev'
          \<and> obj_own (ev_args ev') k = Some v
          \<and> (\<forall>k'. k' \<noteq> k \<longrightarrow> obj_own (ev_args ev') k' = obj_own (ev_args ev) k')
          \<and> (\<forall>k'. k' \<noteq> k \<longrightarrow> event_get host ev' k' = event_get host ev k')
          \<and> obj_proto (ev_args ev') = obj_proto (ev_args ev)
          \<and> ev_result ev' = ev_result ev \<and> ev_name ev' = ev_name ev
          \<and> event_get host ev' k = Inr v))
   \<and> event_get host ev ''result'' = Inr (case ev_result ev of None \<Rightarrow> Undefined | Some x \<Rightarrow> x)
   \<and> (k \<noteq> ''result'' \<longrightarrow> event_get host ev k = obj_get host (ev_args ev) k)
   \<and> (k \<noteq> ''result'' \<and> obj_own (ev_args ev) k = Some x \<longrightarrow> event_get host ev k = Inr x)
   \<and> (k \<noteq> ''result'' \<and> obj_own (ev_args ev) k = None
        \<and> obj_proto (ev_args ev) = ObjectPrototype
        \<and> k \<noteq> ''__proto__'' \<and> k \<notin> set object_prototype_members \<longrightarrow>
       event_get host ev k = Inr Undefined)
   \<and> (k \<noteq> ''result'' \<and> obj_own (ev_args ev) k = None
        \<and> obj_proto (ev_args ev) = ObjectPrototype
        \<and> k \<in> set object_prototype_members \<longrightarrow>
       event_get host ev k = Inr (JBuiltin k))
   \<and> (obj_own (ev_args ev) ''__proto__'' = None
        \<and> obj_proto (ev_args ev) = ObjectPrototype \<longrightarrow>
       event_get host ev ''__proto__'' = Inr JObjectPrototype)
   \<and> (obj_own (ev_args ev) ''__proto__'' = None \<and> obj_proto (ev_args ev) \<noteq> NullPrototype \<longrightarrow>
       (\<exists>ev'. event_set host ev ''__proto__'' v = Inr ev'
          \<and> obj_own (ev_args ev') = obj_own (ev_args ev)
          \<and> ev_args ev' = set_prototype (ev_args ev) v
          \<and> ev_result ev' = ev_result ev \<and> ev_name ev' = ev_name ev)
       \<and> event_set host ev ''__proto__'' Undefined = Inr ev
       \<and> event_set host ev ''__proto__'' (JBool bv) = Inr ev
       \<and> event_set host ev ''__proto__'' (JNum nv) = Inr ev
       \<and> event_set host ev ''__proto__'' (JStr sv) = Inr ev
       \<and> event_set host ev ''__proto__'' Null
           = Inr (ev\<lparr>ev_args := (ev_args ev)\<lparr>obj_proto := NullPrototype\<rparr>\<rparr>)
       \<and> event_set host ev ''__proto__'' (JPtr pv)
           = Inr (ev\<lparr>ev_args := (ev_args ev)\<lparr>obj_proto := HostPrototype (JPtr pv)\<rparr>\<rparr>)
       \<and> event_set host ev ''__proto__'' (JBytes bsv)
           = Inr (ev\<lparr>ev_args := (ev_args ev)\<lparr>obj_proto := HostPrototype (JBytes bsv)\<rparr>\<rparr>))"
proof -
  have result: "\<exists>ev'. event_set host ev ''result'' v = Inr ev'
        \<and> ev_result ev' = Some v \<and> ev_args ev' = ev_args ev \<and> ev_name ev' = ev_name ev
        \<and> event_get host ev' ''result'' = Inr v"
    by (simp add: event_set_def event_get_def)
  have other: "k \<noteq> ''result''
        \<and> (k \<in> dom (obj_own (ev_args ev)) \<or> obj_proto (ev_args ev) = NullPrototype
            \<or> (obj_proto (ev_args ev) = ObjectPrototype \<and> k \<noteq> ''__proto__'')) \<longrightarrow>
       (\<exists>ev'. event_set host ev k v = Inr ev'
          \<and> obj_own (ev_args ev') k = Some v
          \<and> (\<forall>k'. k' \<noteq> k \<longrightarrow> obj_own (ev_args ev') k' = obj_own (ev_args ev) k')
          \<and> (\<forall>k'. k' \<noteq> k \<longrightarrow> event_get host ev' k' = event_get host ev k')
          \<and> obj_proto (ev_args ev') = obj_proto (ev_args ev)
          \<and> ev_result ev' = ev_result ev \<and> ev_name ev' = ev_name ev
          \<and> event_get host ev' k = Inr v)"
  proof (intro impI, elim conjE)
    assume k: "k \<noteq> ''result''"
      and own: "k \<in> dom (obj_own (ev_args ev)) \<or> obj_proto (ev_args ev) = NullPrototype
            \<or> (obj_proto (ev_args ev) = ObjectPrototype \<and> k \<noteq> ''__proto__'')"
    let ?args = "(ev_args ev)\<lparr>obj_own := (obj_own (ev_args ev))(k \<mapsto> v)\<rparr>"
    have s: "event_set host ev k v = Inr (ev\<lparr>ev_args := ?args\<rparr>)"
      using k obj_set_own [OF own, of host v] by (simp add: event_set_def)
    have g: "event_get host (ev\<lparr>ev_args := ?args\<rparr>) k' = event_get host ev k'"
      if "k' \<noteq> k" for k'
      using that by (simp add: event_get_def obj_get_other)
    have "event_get host (ev\<lparr>ev_args := ?args\<rparr>) k = Inr v"
      using k by (simp add: event_get_def obj_get_own)
    with s g show "\<exists>ev'. event_set host ev k v = Inr ev'
          \<and> obj_own (ev_args ev') k = Some v
          \<and> (\<forall>k'. k' \<noteq> k \<longrightarrow> obj_own (ev_args ev') k' = obj_own (ev_args ev) k')
          \<and> (\<forall>k'. k' \<noteq> k \<longrightarrow> event_get host ev' k' = event_get host ev k')
          \<and> obj_proto (ev_args ev') = obj_proto (ev_args ev)
          \<and> ev_result ev' = ev_result ev \<and> ev_name ev' = ev_name ev
          \<and> event_get host ev' k = Inr v"
      by simp
  qed
  have get1: "event_get host ev ''result''
        = Inr (case ev_result ev of None \<Rightarrow> Undefined | Some x \<Rightarrow> x)"
    by (simp add: event_get_def)
  have get2: "k \<noteq> ''result'' \<longrightarrow> event_get host ev k = obj_get host (ev_args ev) k"
    by (simp add: event_get_def)
  have get3: "k \<noteq> ''result'' \<and> obj_own (ev_args ev) k = Some x \<longrightarrow> event_get host ev k = Inr x"
    by (simp add: event_get_def obj_get_own)
  have absent: "k \<noteq> ''result'' \<and> obj_own (ev_args ev) k = None
        \<and> obj_proto (ev_args ev) = ObjectPrototype
        \<and> k \<noteq> ''__proto__'' \<and> k \<notin> set object_prototype_members \<longrightarrow>
       event_get host ev k = Inr Undefined"
    by (simp add: event_get_def obj_get_def lookup_def)
  have member: "k \<noteq> ''result'' \<and> obj_own (ev_args ev) k = None
        \<and> obj_proto (ev_args ev) = ObjectPrototype
        \<and> k \<in> set object_prototype_members \<longrightarrow>
       event_get host ev k = Inr (JBuiltin k)"
  proof (intro impI, elim conjE)
    assume h: "k \<noteq> ''result''" "obj_own (ev_args ev) k = None"
      "obj_proto (ev_args ev) = ObjectPrototype" "k \<in> set object_prototype_members"
    have "''__proto__'' \<notin> set object_prototype_members"
      by (simp add: object_prototype_members_def)
    with h(4) have "k \<noteq> ''__proto__''" by metis
    with h show "event_get host ev k = Inr (JBuiltin k)"
      by (simp add: event_get_def obj_get_def lookup_def)
  qed
  have getproto: "obj_own (ev_args ev) ''__proto__'' = None
        \<and> obj_proto (ev_args ev) = ObjectPrototype \<longrightarrow>
       event_get host ev ''__proto__'' = Inr JObjectPrototype"
    by (simp add: event_get_def obj_get_def prototype_value_def)
  have proto: "obj_own (ev_args ev) ''__proto__'' = None
        \<and> obj_proto (ev_args ev) \<noteq> NullPrototype \<longrightarrow>
       (\<exists>ev'. event_set host ev ''__proto__'' v = Inr ev'
          \<and> obj_own (ev_args ev') = obj_own (ev_args ev)
          \<and> ev_args ev' = set_prototype (ev_args ev) v
          \<and> ev_result ev' = ev_result ev \<and> ev_name ev' = ev_name ev)
       \<and> event_set host ev ''__proto__'' Undefined = Inr ev
       \<and> event_set host ev ''__proto__'' (JBool bv) = Inr ev
       \<and> event_set host ev ''__proto__'' (JNum nv) = Inr ev
       \<and> event_set host ev ''__proto__'' (JStr sv) = Inr ev
       \<and> event_set host ev ''__proto__'' Null
           = Inr (ev\<lparr>ev_args := (ev_args ev)\<lparr>obj_proto := NullPrototype\<rparr>\<rparr>)
       \<and> event_set host ev ''__proto__'' (JPtr pv)
           = Inr (ev\<lparr>ev_args := (ev_args ev)\<lparr>obj_proto := HostPrototype (JPtr pv)\<rparr>\<rparr>)
       \<and> event_set host ev ''__proto__'' (JBytes bsv)
           = Inr (ev\<lparr>ev_args := (ev_args ev)\<lparr>obj_proto := HostPrototype (JBytes bsv)\<rparr>\<rparr>)"
  proof (intro impI, elim conjE)
    assume h: "obj_own (ev_args ev) ''__proto__'' = None"
      "obj_proto (ev_args ev) \<noteq> NullPrototype"
    have setp: "event_set host ev ''__proto__'' w
        = Inr (ev\<lparr>ev_args := set_prototype (ev_args ev) w\<rparr>)" for w
      using obj_set_proto [OF h, of host w] by (simp add: event_set_def)
    show "(\<exists>ev'. event_set host ev ''__proto__'' v = Inr ev'
          \<and> obj_own (ev_args ev') = obj_own (ev_args ev)
          \<and> ev_args ev' = set_prototype (ev_args ev) v
          \<and> ev_result ev' = ev_result ev \<and> ev_name ev' = ev_name ev)
       \<and> event_set host ev ''__proto__'' Undefined = Inr ev
       \<and> event_set host ev ''__proto__'' (JBool bv) = Inr ev
       \<and> event_set host ev ''__proto__'' (JNum nv) = Inr ev
       \<and> event_set host ev ''__proto__'' (JStr sv) = Inr ev
       \<and> event_set host ev ''__proto__'' Null
           = Inr (ev\<lparr>ev_args := (ev_args ev)\<lparr>obj_proto := NullPrototype\<rparr>\<rparr>)
       \<and> event_set host ev ''__proto__'' (JPtr pv)
           = Inr (ev\<lparr>ev_args := (ev_args ev)\<lparr>obj_proto := HostPrototype (JPtr pv)\<rparr>\<rparr>)
       \<and> event_set host ev ''__proto__'' (JBytes bsv)
           = Inr (ev\<lparr>ev_args := (ev_args ev)\<lparr>obj_proto := HostPrototype (JBytes bsv)\<rparr>\<rparr>)"
      by (simp add: setp obj_own_set_prototype)
  qed
  from result other get1 get2 get3 absent member getproto proto
  show ?thesis by (intro conjI)
qed

theorem Event_set_get_witness:
  "''a'' \<noteq> ''result''
   \<and> obj_proto (ev_args (Event ''f'' :: 64 word event)) = ObjectPrototype
   \<and> ''a'' \<noteq> ''__proto__''
   \<and> (\<exists>ev'. event_set plain_host (Event ''f'') ''a'' (JNum 5) = Inr ev'
        \<and> obj_own (ev_args ev') ''a'' = Some (JNum 5)
        \<and> ev_result ev' = ev_result (Event ''f'')
        \<and> event_get plain_host ev' ''a'' = Inr (JNum 5))
   \<and> (\<exists>ev'. event_set plain_host (Event ''f'') ''result'' (JNum 5) = Inr ev'
        \<and> ev_result ev' = Some (JNum 5)
        \<and> event_get plain_host ev' ''result'' = Inr (JNum 5))"
proof -
  have h: "''a'' \<noteq> ''result''" "obj_proto (ev_args (Event ''f'' :: 64 word event)) = ObjectPrototype"
    "''a'' \<noteq> ''__proto__''"
    by (simp_all add: Event_def empty_object_def)
  note T = Event_set_get [of plain_host "Event ''f''" "JNum 5" "''a''"]
  from T h have "\<exists>ev'. event_set plain_host (Event ''f'') ''a'' (JNum 5) = Inr ev'
        \<and> obj_own (ev_args ev') ''a'' = Some (JNum 5)
        \<and> ev_result ev' = ev_result (Event ''f'')
        \<and> event_get plain_host ev' ''a'' = Inr (JNum 5)"
    by blast
  moreover from T have "\<exists>ev'. event_set plain_host (Event ''f'') ''result'' (JNum 5) = Inr ev'
        \<and> ev_result ev' = Some (JNum 5)
        \<and> event_get plain_host ev' ''result'' = Inr (JNum 5)"
    by blast
  ultimately show ?thesis using h by blast
qed

text \<open>
  Claim C8 as stated fails for the key \<open>__proto__\<close>: on a fresh event \<open>set\<close> of a
  number leaves the event as it was, no property is created, and \<open>get\<close> returns
  \<open>Object.prototype\<close>, not the number.
\<close>

theorem Event_proto_counterexample:
  "event_set plain_host (Event ''f'') ''__proto__'' (JNum 5) = Inr (Event ''f'')
   \<and> obj_own (ev_args (Event ''f'' :: 64 word event)) ''__proto__'' = None
   \<and> event_get plain_host (Event ''f'') ''__proto__'' = Inr JObjectPrototype"
  by (simp add: event_set_def event_get_def obj_set_def obj_get_def Event_def empty_object_def
      prototype_value_def)

section \<open>Conditional reads\<close>

text \<open>
  \<open>unreadable\<close> is a memory in which every read raises. The fields of the event after
  an action, or a list of actions, are those before it and the names of the actions run.
\<close>

definition unreadable :: "64 word memory" where
  "unreadable c = Inl (Thrown ''access violation'')"














text \<open>
  The schema \<open>roundtrip\<close> at exit, entered with \<open>a = -1\<close> and with \<open>a = 5\<close>, the
  raw words being those of \<open>a\<close>, of \<open>b\<close> and of the return value.
\<close>

definition no_callbacks :: "64 word callbacks" where
  "no_callbacks = \<lparr>cb_onEnter = None, cb_onLeave = None\<rparr>"

definition roundtrip_hook :: "64 word hook" where
  "roundtrip_hook =
     \<lparr>hook_name = ''f'', hook_numArgs = 2,
      hook_inputActions = [ReadValue 0 ''a'' TInt],
      hook_outputActions =
        [ReadValueConditionally 1 ''b'' TInt (when_cond ''a'' positive),
         ReadValue 2 ''result'' TInt]\<rparr>"

definition entered_negative :: "64 word event" where
  "entered_negative =
     \<lparr>ev_name = ''f'',
      ev_args = \<lparr>obj_own = [''a'' \<mapsto> JNum (- 1)], obj_proto = ObjectPrototype\<rparr>,
      ev_result = None\<rparr>"


definition state_negative :: "64 word invocation" where
  "state_negative = \<lparr>inv_values = [JPtr 4294967295, JPtr 7], inv_event = entered_negative\<rparr>"




definition negative_arguments :: "nat \<Rightarrow> 64 word" where
  "negative_arguments i = (if i = 0 then 4294967295 else 7)"

lemmas object_defs = event_set_def event_get_def obj_set_def obj_get_def lookup_def
  object_prototype_members_def empty_object_def Event_def plain_host_def prototype_value_def

lemma roundtrip_hook_attached:
  "intercept roundtrip (JPtr 8192) = [Attach (JPtr 8192) roundtrip_hook]"
  by (simp add: intercept_def roundtrip_compiled)
     (simp add: roundtrip_def func_def roundtrip_hook_def)

lemma roundtrip_entered_negative:
  "hook_onEnter plain_host no_callbacks roundtrip_hook unreadable negative_arguments
   = (Inr state_negative, [])"
  by (simp add: hook_onEnter_def roundtrip_hook_def no_callbacks_def negative_arguments_def
      state_negative_def entered_negative_def readValue_def store_def value_at_def toInt32_def
      object_defs upt_rec)



section \<open>Failures at exit\<close>

text \<open>
  \<open>string_result\<close> is a schema with only a string return value, \<open>string_result_hook\<close>
  the hook compiled from it and \<open>entered\<close> the state its entry hook leaves.
\<close>

definition string_result :: "64 word func_spec" where
  "string_result = func ''f'' (Some (retval (Plain UTF8) None)) []"

definition string_result_hook :: "64 word hook" where
  "string_result_hook =
     \<lparr>hook_name = ''f'', hook_numArgs = 0, hook_inputActions = [],
      hook_outputActions = [ReadValue 0 ''result'' UTF8]\<rparr>"

definition no_arguments :: "nat \<Rightarrow> 64 word" where
  "no_arguments i = 0"

definition entered :: "64 word invocation" where
  "entered = \<lparr>inv_values = [], inv_event = Event ''f''\<rparr>"

definition delivered :: "64 word event" where
  "delivered = \<lparr>ev_name = ''f'', ev_args = empty_object, ev_result = Some (JStr ''hi'')\<rparr>"

definition readable :: "64 word memory" where
  "readable c = Inr (JStr ''hi'')"

definition raising_onLeave :: "64 word event \<Rightarrow> 64 word \<Rightarrow> error + 64 word event" where
  "raising_onLeave ev rv = Inl (Thrown ''hook failed'')"

definition raising_callbacks :: "64 word callbacks" where
  "raising_callbacks = \<lparr>cb_onEnter = None, cb_onLeave = Some raising_onLeave\<rparr>"

lemma string_result_compiled:
  "computeActions string_result = (True, [], [ReadValue 0 ''result'' UTF8])"
  by (simp add: string_result_def schema_defs compile_defs)

lemma string_result_exit_actions:
  "run_actions plain_host unreadable (inv_values entered @ [JPtr 4096]) (inv_event entered)
     (hook_outputActions string_result_hook)
   = (Inl (Thrown ''access violation''), [ReadUtf8String 4096 (JNum (- 1))])"
  by (simp add: entered_def string_result_hook_def readValue_def store_def value_at_def
      UTF8_def utf8_def pointer_def call_def unreadable_def)

lemma string_result_exit_actions_ok:
  "run_actions plain_host readable (inv_values entered @ [JPtr 4096]) (inv_event entered)
     (hook_outputActions string_result_hook)
   = (Inr delivered, [ReadUtf8String 4096 (JNum (- 1))])"
  by (simp add: entered_def string_result_hook_def readValue_def store_def value_at_def
      UTF8_def utf8_def pointer_def call_def readable_def event_set_def Event_def delivered_def)

text \<open>
  Claim C2, amended. When an exit action raises, or the user's \<open>onLeave\<close> callback
  raises after the actions succeeded, the exit hook raises the same exception to the
  interception mechanism that called it. Whenever the exit hook raises, its only effects
  are the memory reads made so far: it calls neither \<open>onError\<close> nor \<open>onEvent\<close>. When
  it returns, its last effect is the one call of \<open>onEvent\<close>. The hook holds the compiled
  actions and no other state, so later invocations run the same actions.
\<close>

theorem exit_failure_propagates:
  "(run_actions host mem (inv_values st @ [JPtr rv]) (inv_event st) (hook_outputActions h)
      = (Inl e, reads) \<longrightarrow>
    hook_onLeave host cbs h mem (Some st) rv = (Inl e, map MemRead reads))
   \<and> (run_actions host mem (inv_values st @ [JPtr rv]) (inv_event st) (hook_outputActions h)
        = (Inr ev, reads) \<and> cb_onLeave cbs = Some onLeave \<and> onLeave ev rv = Inl e \<longrightarrow>
      hook_onLeave host cbs h mem (Some st) rv = (Inl e, map MemRead reads))
   \<and> (fst (hook_onLeave host cbs h mem this rv) = Inl e \<longrightarrow>
        (\<forall>x \<in> set (snd (hook_onLeave host cbs h mem this rv)). \<exists>c. x = MemRead c))
   \<and> (fst (hook_onLeave host cbs h mem this rv) = Inr () \<longrightarrow>
        (\<exists>ev' reads'. snd (hook_onLeave host cbs h mem this rv)
           = map MemRead reads' @ [OnEvent ev']))"
  by (auto simp: hook_onLeave_def Let_def split: option.splits prod.splits sum.splits)

theorem exit_failure_propagates_witness:
  "run_actions plain_host unreadable (inv_values entered @ [JPtr 4096]) (inv_event entered)
     (hook_outputActions string_result_hook)
   = (Inl (Thrown ''access violation''), [ReadUtf8String 4096 (JNum (- 1))])
   \<and> hook_onLeave plain_host no_callbacks string_result_hook unreadable (Some entered) 4096
     = (Inl (Thrown ''access violation''), map MemRead [ReadUtf8String 4096 (JNum (- 1))])
   \<and> run_actions plain_host readable (inv_values entered @ [JPtr 4096]) (inv_event entered)
       (hook_outputActions string_result_hook)
     = (Inr delivered, [ReadUtf8String 4096 (JNum (- 1))])
   \<and> cb_onLeave raising_callbacks = Some raising_onLeave
   \<and> raising_onLeave delivered 4096 = Inl (Thrown ''hook failed'')
   \<and> hook_onLeave plain_host raising_callbacks string_result_hook readable (Some entered) 4096
     = (Inl (Thrown ''hook failed''), map MemRead [ReadUtf8String 4096 (JNum (- 1))])"
proof -
  note A = exit_failure_propagates [of plain_host unreadable entered 4096 string_result_hook
      "Thrown ''access violation''" "[ReadUtf8String 4096 (JNum (- 1))]" no_callbacks]
  from A string_result_exit_actions
  have first: "hook_onLeave plain_host no_callbacks string_result_hook unreadable
        (Some entered) 4096
     = (Inl (Thrown ''access violation''), map MemRead [ReadUtf8String 4096 (JNum (- 1))])"
    by blast
  have c: "cb_onLeave raising_callbacks = Some raising_onLeave"
    by (simp add: raising_callbacks_def)
  have r: "raising_onLeave delivered 4096 = Inl (Thrown ''hook failed'')"
    by (simp add: raising_onLeave_def)
  note B = exit_failure_propagates [of plain_host readable entered 4096 string_result_hook
      "Thrown ''hook failed''" "[ReadUtf8String 4096 (JNum (- 1))]" raising_callbacks
      delivered raising_onLeave]
  from B string_result_exit_actions_ok c r
  have second: "hook_onLeave plain_host raising_callbacks string_result_hook readable
        (Some entered) 4096
     = (Inl (Thrown ''hook failed''), map MemRead [ReadUtf8String 4096 (JNum (- 1))])"
    by blast
  from string_result_exit_actions first string_result_exit_actions_ok c r second
  show ?thesis by (intro conjI)
qed

text \<open>
  Claim C2 as stated fails: the exit hook of \<open>string_result\<close>, entered normally, raises
  when the string cannot be read, and \<open>onError\<close> is not among its effects.
\<close>

theorem exit_failure_counterexample:
  "intercept string_result (JPtr 8192) = [Attach (JPtr 8192) string_result_hook]
   \<and> hook_onEnter plain_host no_callbacks string_result_hook unreadable no_arguments
     = (Inr entered, [])
   \<and> hook_onLeave plain_host no_callbacks string_result_hook unreadable (Some entered) 4096
     = (Inl (Thrown ''access violation''), [MemRead (ReadUtf8String 4096 (JNum (- 1)))])"
proof -
  have "intercept string_result (JPtr 8192) = [Attach (JPtr 8192) string_result_hook]"
    by (simp add: intercept_def string_result_compiled)
       (simp add: string_result_def func_def string_result_hook_def)
  moreover have "hook_onEnter plain_host no_callbacks string_result_hook unreadable no_arguments
      = (Inr entered, [])"
    by (simp add: hook_onEnter_def string_result_hook_def no_callbacks_def entered_def)
  moreover have "hook_onLeave plain_host no_callbacks string_result_hook unreadable
        (Some entered) 4096
     = (Inl (Thrown ''access violation''), [MemRead (ReadUtf8String 4096 (JNum (- 1)))])"
    using string_result_exit_actions by (simp add: hook_onLeave_def)
  ultimately show ?thesis by (intro conjI)
qed

section \<open>Walking a vtable\<close>

lemma mem_reads_append: "mem_reads (xs @ ys) = mem_reads xs @ mem_reads ys"
  by (induction xs rule: mem_reads.induct) simp_all

lemma mem_reads_intercept: "mem_reads (intercept f impl) = []"
  by (simp add: intercept_def split: prod.splits)

lemma intercept_compiled:
  "fst (computeActions f) \<Longrightarrow>
   intercept f impl =
     [Attach impl
        \<lparr>hook_name = func_name f, hook_numArgs = length (func_args f),
         hook_inputActions = fst (snd (computeActions f)),
         hook_outputActions = snd (snd (computeActions f))\<rparr>]"
  by (cases "computeActions f") (simp add: intercept_def)

text \<open>
  Claim C7. In vtable mode with the entries \<open>[padding(2), f]\<close> the walk reads one
  pointer, at the base plus twice the pointer size, and gives the value read to the
  interceptor as the implementation address of \<open>f\<close>: when \<open>f\<close> compiles, the one hook
  is attached at that address. In general a padding entry of size \<open>n\<close> moves the offset
  by \<open>n\<close> times the pointer size and does nothing else, and a function entry reads one
  pointer at the current offset, gives it to the interceptor with the entry and goes on
  one pointer size further; a failed read is reported and ends the walk.
\<close>

theorem vtable_padding_skips_slots:
  "trace env (Vtable base [padding 2, FuncEntry f]) =
     (Inr (),
      MemRead (ReadPointer (base + word_of_int (2 * pointerSize env)))
      # (case memory env (ReadPointer (base + word_of_int (2 * pointerSize env))) of
           Inl e \<Rightarrow> [OnError (FailedToReadVtable (2 * pointerSize env) e)]
         | Inr impl \<Rightarrow> intercept f impl))
   \<and> (fst (computeActions f)
        \<and> memory env (ReadPointer (base + word_of_int (2 * pointerSize env))) = Inr target
        \<longrightarrow>
       trace env (Vtable base [padding 2, FuncEntry f]) =
         (Inr (),
          [MemRead (ReadPointer (base + word_of_int (2 * pointerSize env))),
           Attach target
             \<lparr>hook_name = func_name f, hook_numArgs = length (func_args f),
              hook_inputActions = fst (snd (computeActions f)),
              hook_outputActions = snd (snd (computeActions f))\<rparr>]))
   \<and> trace_vtable env base offset (padding n # es)
     = trace_vtable env base (offset + n * pointerSize env) es
   \<and> trace_vtable env base offset (FuncEntry f # es)
     = MemRead (ReadPointer (base + word_of_int offset))
       # (case memory env (ReadPointer (base + word_of_int offset)) of
            Inl e \<Rightarrow> [OnError (FailedToReadVtable offset e)]
          | Inr impl \<Rightarrow>
              intercept f impl @ trace_vtable env base (offset + pointerSize env) es)
   \<and> mem_reads (snd (trace env (Vtable base [padding 2, FuncEntry f])))
     = [ReadPointer (base + word_of_int (2 * pointerSize env))]
   \<and> mem_reads (trace_vtable env base offset (FuncEntry f # es))
     = ReadPointer (base + word_of_int offset)
       # (case memory env (ReadPointer (base + word_of_int offset)) of
            Inl e \<Rightarrow> []
          | Inr impl \<Rightarrow> mem_reads (trace_vtable env base (offset + pointerSize env) es))"
proof -
  have walk: "trace env (Vtable base [padding 2, FuncEntry f]) =
     (Inr (),
      MemRead (ReadPointer (base + word_of_int (2 * pointerSize env)))
      # (case memory env (ReadPointer (base + word_of_int (2 * pointerSize env))) of
           Inl e \<Rightarrow> [OnError (FailedToReadVtable (2 * pointerSize env) e)]
         | Inr impl \<Rightarrow> intercept f impl))"
    by (simp add: trace_def padding_def split: sum.splits)
  have bound: "trace env (Vtable base [padding 2, FuncEntry f]) =
         (Inr (),
          [MemRead (ReadPointer (base + word_of_int (2 * pointerSize env))),
           Attach target
             \<lparr>hook_name = func_name f, hook_numArgs = length (func_args f),
              hook_inputActions = fst (snd (computeActions f)),
              hook_outputActions = snd (snd (computeActions f))\<rparr>])"
    if "fst (computeActions f)"
      "memory env (ReadPointer (base + word_of_int (2 * pointerSize env))) = Inr target"
    using that by (simp add: walk intercept_compiled)
  have pad: "trace_vtable env base offset (padding n # es)
     = trace_vtable env base (offset + n * pointerSize env) es"
    by (simp add: padding_def)
  have slot: "trace_vtable env base offset (FuncEntry f # es)
     = MemRead (ReadPointer (base + word_of_int offset))
       # (case memory env (ReadPointer (base + word_of_int offset)) of
            Inl e \<Rightarrow> [OnError (FailedToReadVtable offset e)]
          | Inr impl \<Rightarrow>
              intercept f impl @ trace_vtable env base (offset + pointerSize env) es)"
    by (simp split: sum.splits)
  have reads: "mem_reads (snd (trace env (Vtable base [padding 2, FuncEntry f])))
     = [ReadPointer (base + word_of_int (2 * pointerSize env))]"
    "mem_reads (trace_vtable env base offset (FuncEntry f # es))
     = ReadPointer (base + word_of_int offset)
       # (case memory env (ReadPointer (base + word_of_int offset)) of
            Inl e \<Rightarrow> []
          | Inr impl \<Rightarrow> mem_reads (trace_vtable env base (offset + pointerSize env) es))"
    by (simp_all add: trace_def padding_def mem_reads_append mem_reads_intercept
        split: sum.splits)
  from walk bound pad slot reads show ?thesis by blast
qed

theorem vtable_padding_skips_slots_witness:
  "fst (computeActions inout_only)
   \<and> memory sample_process (ReadPointer (4096 + word_of_int (2 * pointerSize sample_process)))
     = Inr (JPtr 8192)
   \<and> trace sample_process (Vtable 4096 [padding 2, FuncEntry inout_only]) =
       (Inr (),
        [MemRead (ReadPointer 4112),
         Attach (JPtr 8192)
           \<lparr>hook_name = ''f'', hook_numArgs = 1,
            hook_inputActions = [ReadValue 0 ''x'' TInt], hook_outputActions = []\<rparr>])"
proof -
  have c: "fst (computeActions inout_only)" by (simp add: inout_only_compiled)
  have m: "memory sample_process
      (ReadPointer (4096 + word_of_int (2 * pointerSize sample_process))) = Inr (JPtr 8192)"
    by (simp add: sample_process_def sample_slots_def)
  note T = vtable_padding_skips_slots [of sample_process 4096 inout_only "JPtr 8192" 0 0 "[]"]
  from T c m have "trace sample_process (Vtable 4096 [padding 2, FuncEntry inout_only]) =
         (Inr (),
          [MemRead (ReadPointer (4096 + word_of_int (2 * pointerSize sample_process))),
           Attach (JPtr 8192)
             \<lparr>hook_name = func_name inout_only, hook_numArgs = length (func_args inout_only),
              hook_inputActions = fst (snd (computeActions inout_only)),
              hook_outputActions = snd (snd (computeActions inout_only))\<rparr>])"
    by blast
  then have "trace sample_process (Vtable 4096 [padding 2, FuncEntry inout_only]) =
       (Inr (),
        [MemRead (ReadPointer 4112),
         Attach (JPtr 8192)
           \<lparr>hook_name = ''f'', hook_numArgs = 1,
            hook_inputActions = [ReadValue 0 ''x'' TInt], hook_outputActions = []\<rparr>])"
    by (simp add: inout_only_compiled sample_process_def)
       (simp add: inout_only_def func_def)
  with c m show ?thesis by (intro conjI)
qed


end
